theory Spec2Isabelle
  imports Main "HOL-Library.Word" "HOL-Library.Monad_Syntax"
begin

section \<open>Byte strings, character classes and regular-expression pieces\<close>

text \<open>
  A Go \<^verbatim>\<open>string\<close> is a sequence of bytes; it is modelled as a \<^typ>\<open>string\<close>
  (a list of 8-bit characters). The three patterns of the importer are compiled by
  \<^verbatim>\<open>regexp.MustCompile\<close>; each is embedded as a deterministic matcher assembled from
  the pieces below. Every character class of the patterns excludes the separator
  \<^verbatim>\<open>|\<close> that follows it and no literal of an alternation is a prefix of another, so the
  leftmost-first search of the regexp engine never has a second way to match and the
  greedy reading below returns the same submatches.
\<close>

definition is_digit :: "char \<Rightarrow> bool" where
  "is_digit c = (c \<in> set ''0123456789'')"

definition is_version_char :: "char \<Rightarrow> bool" where
  "is_version_char c = (c \<in> set ''123456789.'')"

definition is_value_char :: "char \<Rightarrow> bool" where
  "is_value_char c = (c \<in> set ''0123456789abcdef:.'')"

definition is_upper :: "char \<Rightarrow> bool" where
  "is_upper c = (c \<in> set ''ABCDEFGHIJKLMNOPQRSTUVWXYZ'')"

definition newline :: char where
  "newline = CHR 0x0A"

definition carriage_return :: char where
  "carriage_return = CHR 0x0D"

text \<open>\<^verbatim>\<open>[class]+\<close>: the longest non-empty run of characters of the class.\<close>

definition take_class1 :: "(char \<Rightarrow> bool) \<Rightarrow> string \<Rightarrow> (string \<times> string) option" where
  "take_class1 P s =
     (if takeWhile P s = [] then None else Some (takeWhile P s, dropWhile P s))"

text \<open>A literal: the rest of the input after it, when the input starts with it.\<close>

fun strip_prefix :: "string \<Rightarrow> string \<Rightarrow> string option" where
  "strip_prefix [] s = Some s"
| "strip_prefix (p # ps) [] = None"
| "strip_prefix (p # ps) (c # cs) = (if p = c then strip_prefix ps cs else None)"

text \<open>\<^verbatim>\<open>(lit1|lit2|...)\<close>: the first literal, in the order written, that the input starts with.\<close>

fun take_alt :: "string list \<Rightarrow> string \<Rightarrow> (string \<times> string) option" where
  "take_alt [] s = None"
| "take_alt (l # ls) s =
     (case strip_prefix l s of Some r \<Rightarrow> Some (l, r) | None \<Rightarrow> take_alt ls s)"

text \<open>\<^verbatim>\<open>\|\<close>: one separator.\<close>

definition expect_pipe :: "string \<Rightarrow> string option" where
  "expect_pipe s = strip_prefix ''|'' s"

definition registries :: "string list" where
  "registries = [''afrinic'', ''apnic'', ''arin'', ''lacnic'', ''ripencc'']"

definition record_types :: "string list" where
  "record_types = [''asn'', ''ipv4'', ''ipv6'']"

definition states :: "string list" where
  "states = [''allocated'', ''assigned'', ''available'', ''reserved'']"

section \<open>strconv.ParseUint and strconv.ParseInt, base 10\<close>

text \<open>
  The importer converts its numeric fields with the Go standard library and discards the
  error (\<^verbatim>\<open>hdr.serial, _ = strconv.ParseUint(matches[3], 10, 32)\<close>), so what matters is
  the value returned next to each error. The library reads the bytes left to right:
  a byte that is not a decimal digit ends the conversion with value 0 (syntax error);
  a value that leaves the range of \<open>bitSize\<close> bits ends it with the largest value of
  that size (range error). An empty string is a syntax error.
\<close>

datatype num_error = ErrSyntax | ErrRange

definition digit_val :: "char \<Rightarrow> nat" where
  "digit_val c = of_char c - 48"

definition maxUint64 :: nat where
  "maxUint64 = 2 ^ 64 - 1"

fun ParseUint_loop :: "nat \<Rightarrow> nat \<Rightarrow> string \<Rightarrow> nat \<times> num_error option" where
  "ParseUint_loop maxVal n [] = (n, None)"
| "ParseUint_loop maxVal n (c # cs) =
     (if \<not> is_digit c then (0, Some ErrSyntax)
      else if n \<ge> maxUint64 div 10 + 1 then (maxVal, Some ErrRange)
      else if n * 10 + digit_val c > maxUint64 \<or> n * 10 + digit_val c > maxVal
        then (maxVal, Some ErrRange)
      else ParseUint_loop maxVal (n * 10 + digit_val c) cs)"

definition ParseUint :: "string \<Rightarrow> nat \<Rightarrow> nat \<times> num_error option" where
  "ParseUint s bitSize =
     (if s = [] then (0, Some ErrSyntax) else ParseUint_loop (2 ^ bitSize - 1) 0 s)"

definition ParseInt :: "string \<Rightarrow> nat \<Rightarrow> int \<times> num_error option" where
  "ParseInt s bitSize =
     (if s = [] then (0, Some ErrSyntax)
      else
        let neg = (hd s = CHR ''-'');
            s' = (if hd s = CHR ''+'' \<or> hd s = CHR ''-'' then tl s else s);
            (un, err) = ParseUint s' bitSize;
            cutoff = (2::nat) ^ (bitSize - 1)
        in if err = Some ErrSyntax then (0, Some ErrSyntax)
           else if \<not> neg \<and> un \<ge> cutoff then (int cutoff - 1, Some ErrRange)
           else if neg \<and> un > cutoff then (- int cutoff, Some ErrRange)
           else (if neg then - int un else int un, None))"

text \<open>Go's \<^verbatim>\<open>/\<close> on signed integers truncates towards zero.\<close>

definition go_div :: "int \<Rightarrow> int \<Rightarrow> int" where
  "go_div a b = sgn a * sgn b * (\<bar>a\<bar> div \<bar>b\<bar>)"

section \<open>The file header\<close>

text \<open>
  \<^verbatim>\<open>type FileHeader struct\<close>. The \<^verbatim>\<open>uint64\<close> fields only ever receive a result of
  \<open>ParseUint\<close>, which is below \<open>2 ^ 64\<close>, and \<^verbatim>\<open>UTCoffset\<close> a quotient of a 32-bit
  value, so no arithmetic on them can wrap: they are \<^typ>\<open>nat\<close> and \<^typ>\<open>int\<close>.
\<close>

record FileHeader =
  version :: string
  registry :: string
  serial :: nat
  records :: nat
  startdate :: string
  enddate :: string
  UTCoffset :: int
  asnCount :: nat
  ipv4Count :: nat
  ipv6Count :: nat

text \<open>\<^verbatim>\<open>var hdr FileHeader\<close>: the zero value of the struct.\<close>

definition zero_header :: FileHeader where
  "zero_header = \<lparr>version = [], registry = [], serial = 0, records = 0, startdate = [],
     enddate = [], UTCoffset = 0, asnCount = 0, ipv4Count = 0, ipv6Count = 0\<rparr>"

text \<open>The command-line switches the core reads: \<^verbatim>\<open>-force\<close> and \<^verbatim>\<open>-invalid-header-ok\<close>.\<close>

record flags =
  f_force :: bool
  f_invalid_hdr_ok :: bool

text \<open>
  What the store hands back with a failed statement: a \<^verbatim>\<open>*mysql.MySQLError\<close> with its
  number (1062 is the duplicate-key error), or an error of any other Go type (a lost
  connection, a driver error).
\<close>

datatype store_error = MySQLError nat | OtherError

text \<open>
  How a run ends early: \<^verbatim>\<open>log.Fatal\<close> (which exits the process) at the three places
  the source calls it, or a run-time panic of the Go runtime.
\<close>

datatype failure =
    Fatal_invalid_header
  | Fatal_dataset_insert store_error
  | Fatal_dataset_lookup
  | Panic_index_out_of_range
  | Panic_nil_dereference

text \<open>
  The version-line pattern
  \<^verbatim>\<open>^([1-9.])+\|(afrinic|apnic|arin|lacnic|ripencc)\|([0-9]+)\|(\d+)\|(\d+)\|(\d+)\|(.*)\<close>.
  The first group stands under the \<^verbatim>\<open>+\<close>, so its submatch is the last character the
  repetition consumed; \<^verbatim>\<open>.\<close> does not match a line feed; the pattern has no end anchor.
  The result lists \<^verbatim>\<open>matches[1]\<close> to \<^verbatim>\<open>matches[7]\<close>.
\<close>

definition match_version :: "string \<Rightarrow> string list option" where
  "match_version line = do {
     (ver, r1) \<leftarrow> take_class1 is_version_char line;
     r2 \<leftarrow> expect_pipe r1;
     (reg, r3) \<leftarrow> take_alt registries r2;
     r4 \<leftarrow> expect_pipe r3;
     (ser, r5) \<leftarrow> take_class1 is_digit r4;
     r6 \<leftarrow> expect_pipe r5;
     (cnt, r7) \<leftarrow> take_class1 is_digit r6;
     r8 \<leftarrow> expect_pipe r7;
     (sd, r9) \<leftarrow> take_class1 is_digit r8;
     r10 \<leftarrow> expect_pipe r9;
     (ed, r11) \<leftarrow> take_class1 is_digit r10;
     r12 \<leftarrow> expect_pipe r11;
     Some [[last ver], reg, ser, cnt, sd, ed, takeWhile (\<lambda>c. c \<noteq> newline) r12]
   }"

definition parseVersionLine :: "flags \<Rightarrow> FileHeader \<Rightarrow> string \<Rightarrow> failure + (bool \<times> FileHeader)" where
  "parseVersionLine fl hdr line =
     (case match_version line of
        None \<Rightarrow> if \<not> f_invalid_hdr_ok fl then Inl Fatal_invalid_header else Inr (False, hdr)
      | Some m \<Rightarrow>
          let hdr1 = hdr\<lparr>version := m ! 0, registry := m ! 1,
                        serial := fst (ParseUint (m ! 2) 32),
                        records := fst (ParseUint (m ! 3) 32),
                        startdate := m ! 4, enddate := m ! 5,
                        UTCoffset := go_div (fst (ParseInt (m ! 6) 32)) 100\<rparr>;
              hdr2 = (if startdate hdr1 = ''00000000''
                      then hdr1\<lparr>startdate := ''19700101''\<rparr> else hdr1)
          in Inr (True, hdr2))"

text \<open>
  The summary-line pattern
  \<^verbatim>\<open>^(afrinic|apnic|arin|lacnic|ripencc)\|\*\|(asn|ipv4|ipv6)\|\*\|([0-9]+)\|summary\<close>;
  the result is \<^verbatim>\<open>matches[2]\<close> and \<^verbatim>\<open>matches[3]\<close>, the only groups the code reads.
\<close>

definition match_summary :: "string \<Rightarrow> (string \<times> string) option" where
  "match_summary line = do {
     (reg, r1) \<leftarrow> take_alt registries line;
     r2 \<leftarrow> strip_prefix ''|*|'' r1;
     (ty, r3) \<leftarrow> take_alt record_types r2;
     r4 \<leftarrow> strip_prefix ''|*|'' r3;
     (cnt, r5) \<leftarrow> take_class1 is_digit r4;
     r6 \<leftarrow> strip_prefix ''|summary'' r5;
     Some (ty, cnt)
   }"

definition parseSummaryLine :: "FileHeader \<Rightarrow> string \<Rightarrow> FileHeader" where
  "parseSummaryLine hdr line =
     (case match_summary line of
        None \<Rightarrow> hdr
      | Some (ty, cnt) \<Rightarrow>
          if ty = ''ipv4'' then hdr\<lparr>ipv4Count := fst (ParseUint cnt 64)\<rparr>
          else if ty = ''asn'' then hdr\<lparr>asnCount := fst (ParseUint cnt 64)\<rparr>
          else hdr\<lparr>ipv6Count := fst (ParseUint cnt 64)\<rparr>)"

section \<open>The line scanner\<close>

text \<open>
  \<^verbatim>\<open>bufio.NewScanner\<close> with its default split function \<^verbatim>\<open>ScanLines\<close>: the input is cut
  at every line feed, one carriage return before the line feed is dropped, and a last
  line without a line feed is returned when it is not empty. The scanner's buffer holds
  at most 65536 bytes (\<^verbatim>\<open>bufio.MaxScanTokenSize\<close>). At a line that does not fit,
  \<^verbatim>\<open>Scan\<close> returns false once (its error is \<^verbatim>\<open>ErrTooLong\<close>); one more call hands
  out the buffered 65536 bytes as a last token, and every call after that returns false:
  the rest of the input is never read.

  The state of the scanner is the list of the results its coming calls of \<^verbatim>\<open>Scan\<close>
  will give: \<open>Some line\<close> for true with that \<^verbatim>\<open>Text()\<close>, \<open>None\<close> for false. After
  the list, every call returns false. \<^verbatim>\<open>Text()\<close> after a false \<^verbatim>\<open>Scan\<close> is the empty
  string.
\<close>

fun split_lines :: "string \<Rightarrow> string \<Rightarrow> string list" where
  "split_lines acc [] = (if acc = [] then [] else [rev acc])"
| "split_lines acc (c # cs) =
     (if c = newline then rev acc # split_lines [] cs else split_lines (c # acc) cs)"

definition dropCR :: "string \<Rightarrow> string" where
  "dropCR l = (if l \<noteq> [] \<and> last l = carriage_return then butlast l else l)"

definition MaxScanTokenSize :: nat where
  "MaxScanTokenSize = 65536"

fun scan_results :: "string list \<Rightarrow> string option list" where
  "scan_results [] = []"
| "scan_results (l # ls) =
     (if length l < MaxScanTokenSize then Some (dropCR l) # scan_results ls
      else [None, Some (dropCR (take MaxScanTokenSize l))])"

definition NewScanner :: "string \<Rightarrow> string option list" where
  "NewScanner data = scan_results (split_lines [] data)"

text \<open>
  \<^verbatim>\<open>func parseHeader\<close>. The results of \<^verbatim>\<open>scanner.Scan()\<close> are not looked at before the
  version line: after a false \<^verbatim>\<open>Scan\<close> the line is empty, and \<^verbatim>\<open>line[0]\<close> on an
  empty string is an index-out-of-range panic.
\<close>

fun skip_comments :: "string \<Rightarrow> string option list \<Rightarrow> failure + (string \<times> string option list)" where
  "skip_comments [] sc = Inl Panic_index_out_of_range"
| "skip_comments (c # cs) sc =
     (if c = CHR ''#'' \<or> c = carriage_return
      then (case sc of
              [] \<Rightarrow> Inl Panic_index_out_of_range
            | None # sc' \<Rightarrow> Inl Panic_index_out_of_range
            | Some l # sc' \<Rightarrow> skip_comments l sc')
      else Inr (c # cs, sc))"

text \<open>\<^verbatim>\<open>for i := 0; i < 3 && scanner.Scan(); i++\<close>: a false \<^verbatim>\<open>Scan\<close> ends the loop and is used up.\<close>

fun read_summaries :: "nat \<Rightarrow> FileHeader \<Rightarrow> string option list \<Rightarrow> FileHeader \<times> string option list" where
  "read_summaries 0 hdr sc = (hdr, sc)"
| "read_summaries (Suc i) hdr [] = (hdr, [])"
| "read_summaries (Suc i) hdr (None # sc) = (hdr, sc)"
| "read_summaries (Suc i) hdr (Some l # sc) = read_summaries i (parseSummaryLine hdr l) sc"

definition parseHeader :: "flags \<Rightarrow> string option list \<Rightarrow> FileHeader \<Rightarrow> failure + (FileHeader \<times> string option list)" where
  "parseHeader fl sc hdr =
     (case (case sc of
              [] \<Rightarrow> Inl Panic_index_out_of_range
            | None # sc' \<Rightarrow> Inl Panic_index_out_of_range
            | Some l # sc' \<Rightarrow> skip_comments l sc') of
        Inl f \<Rightarrow> Inl f
      | Inr (line, rest) \<Rightarrow>
          (case parseVersionLine fl hdr line of
             Inl f \<Rightarrow> Inl f
           | Inr (ok, hdr') \<Rightarrow> if ok then Inr (read_summaries 3 hdr' rest) else Inr (hdr', rest)))"

section \<open>Record lines\<close>

text \<open>
  The regexp engine reads its input as UTF-8: \<^verbatim>\<open>.\<close> consumes one rune, which is one to
  four bytes, and a byte that starts no valid encoding counts as a rune of one byte
  (\<^verbatim>\<open>utf8.DecodeRuneInString\<close>). \<open>rune_width\<close> is the number of bytes of the first rune.
\<close>

definition byte_in :: "nat \<Rightarrow> nat \<Rightarrow> char \<Rightarrow> bool" where
  "byte_in lo hi c = (lo \<le> of_char c \<and> of_char c \<le> hi)"

fun rune_width :: "string \<Rightarrow> nat" where
  "rune_width [] = 0"
| "rune_width (b0 # bs) =
     (let x = (of_char b0 :: nat) in
      if x < 0x80 then 1
      else if 0xC2 \<le> x \<and> x \<le> 0xDF then
        (case bs of
           b1 # _ \<Rightarrow> if byte_in 0x80 0xBF b1 then 2 else 1
         | _ \<Rightarrow> 1)
      else if 0xE0 \<le> x \<and> x \<le> 0xEF then
        (case bs of
           b1 # b2 # _ \<Rightarrow>
             if byte_in (if x = 0xE0 then 0xA0 else 0x80) (if x = 0xED then 0x9F else 0xBF) b1
                \<and> byte_in 0x80 0xBF b2 then 3 else 1
         | _ \<Rightarrow> 1)
      else if 0xF0 \<le> x \<and> x \<le> 0xF4 then
        (case bs of
           b1 # b2 # b3 # _ \<Rightarrow>
             if byte_in (if x = 0xF0 then 0x90 else 0x80) (if x = 0xF4 then 0x8F else 0xBF) b1
                \<and> byte_in 0x80 0xBF b2 \<and> byte_in 0x80 0xBF b3 then 4 else 1
         | _ \<Rightarrow> 1)
      else 1)"

text \<open>
  \<^verbatim>\<open>([A-Z].|)\<close> before a separator: a capital letter and one more rune that is not a line
  feed, or nothing. An input that starts with a capital letter cannot continue with the
  separator, so the empty alternative is only left where the first one does not apply.
\<close>

definition take_cc :: "string \<Rightarrow> string \<times> string" where
  "take_cc s =
     (case s of
        c # d # ds \<Rightarrow>
          if is_upper c \<and> d \<noteq> newline
          then (c # take (rune_width (d # ds)) (d # ds), drop (rune_width (d # ds)) (d # ds))
          else ([], s)
      | _ \<Rightarrow> ([], s))"

text \<open>
  The record pattern
  \<^verbatim>\<open>^(afrinic|apnic|arin|lacnic|ripencc)\|([A-Z].|)\|(asn|ipv4|ipv6)\|([0-9a-f:.]+)\|([0-9]+)\|([0-9]+|)\|(allocated|assigned|available|reserved)(.*)$\<close>.
  \<^verbatim>\<open>$\<close> is the end of the text and \<^verbatim>\<open>.\<close> stops at a line feed, so the remainder must
  hold no line feed. The result lists \<^verbatim>\<open>matches[1]\<close> to \<^verbatim>\<open>matches[8]\<close>.
\<close>

definition match_record :: "string \<Rightarrow> string list option" where
  "match_record line = do {
     (reg, r1) \<leftarrow> take_alt registries line;
     r2 \<leftarrow> expect_pipe r1;
     (cc, r3) \<leftarrow> Some (take_cc r2);
     r4 \<leftarrow> expect_pipe r3;
     (ty, r5) \<leftarrow> take_alt record_types r4;
     r6 \<leftarrow> expect_pipe r5;
     (val, r7) \<leftarrow> take_class1 is_value_char r6;
     r8 \<leftarrow> expect_pipe r7;
     (ext, r9) \<leftarrow> take_class1 is_digit r8;
     r10 \<leftarrow> expect_pipe r9;
     (date, r11) \<leftarrow> Some (takeWhile is_digit r10, dropWhile is_digit r10);
     r12 \<leftarrow> expect_pipe r11;
     (st, r13) \<leftarrow> take_alt states r12;
     if newline \<in> set r13 then None else Some [reg, cc, ty, val, ext, date, st, r13]
   }"

section \<open>The store, as the importer sees it\<close>

text \<open>
  The importer talks to the store through \<^verbatim>\<open>*sql.DB\<close>. A \<open>driver\<close> collects the
  five statements it issues, over any type of store states:
  \<^item> \<open>insert_dataset\<close>: \<^verbatim>\<open>INSERT INTO Datasets\<close> with the header's seven values; the
    result is the error or \<^verbatim>\<open>res.LastInsertId()\<close>;
  \<^item> \<open>lookup_dataset\<close>: \<^verbatim>\<open>SELECT ID FROM Datasets WHERE ID_Registries = ? AND serial = ?\<close>;
    \<open>None\<close> when \<^verbatim>\<open>Scan\<close> returns an error;
  \<^item> \<open>insert_summary\<close>: \<^verbatim>\<open>INSERT INTO Summaries\<close> with the Dataset's identifier, the
    record type, the declared count and the header's end date;
  \<^item> \<open>prepare\<close>: \<^verbatim>\<open>db.Prepare\<close> of the insert into \<^verbatim>\<open>Records_<type>\<close>, whose text
    carries the Dataset's identifier and the header's end date; false when it returns
    an error (the statement is then a nil pointer);
  \<^item> \<open>exec_record\<close>: \<^verbatim>\<open>Exec\<close> of that prepared statement with the eight values of a
    record line.
\<close>

record 'st driver =
  insert_dataset :: "'st \<Rightarrow> FileHeader \<Rightarrow> (store_error + int) \<times> 'st"
  lookup_dataset :: "'st \<Rightarrow> string \<Rightarrow> nat \<Rightarrow> int option"
  insert_summary :: "'st \<Rightarrow> int \<Rightarrow> string \<Rightarrow> nat \<Rightarrow> string \<Rightarrow> store_error option \<times> 'st"
  prepare :: "'st \<Rightarrow> string \<Rightarrow> int \<Rightarrow> string \<Rightarrow> bool"
  exec_record :: "'st \<Rightarrow> string \<Rightarrow> int \<Rightarrow> string \<Rightarrow> string list \<Rightarrow> store_error option \<times> 'st"

text \<open>
  The three Summary inserts of \<^verbatim>\<open>saveHeaderData\<close>; an error is a warning only. Go leaves
  the order of a \<^verbatim>\<open>range\<close> over a map open; the order of the map literal is taken.
\<close>

definition save_summaries :: "'st driver \<Rightarrow> 'st \<Rightarrow> int \<Rightarrow> FileHeader \<Rightarrow> 'st" where
  "save_summaries drv st lastID hdr =
     (let st1 = snd (insert_summary drv st lastID ''ipv4'' (ipv4Count hdr) (enddate hdr));
          st2 = snd (insert_summary drv st1 lastID ''asn'' (asnCount hdr) (enddate hdr));
          st3 = snd (insert_summary drv st2 lastID ''ipv6'' (ipv6Count hdr) (enddate hdr))
      in st3)"

text \<open>
  \<^verbatim>\<open>func saveHeaderData\<close>. An error that is no \<^verbatim>\<open>*mysql.MySQLError\<close> leaves
  \<^verbatim>\<open>driverErr\<close> nil, and reading \<^verbatim>\<open>driverErr.Number\<close> is a nil-pointer panic.
\<close>

definition saveHeaderData :: "'st driver \<Rightarrow> flags \<Rightarrow> 'st \<Rightarrow> FileHeader \<Rightarrow> 'st \<times> (failure + int)" where
  "saveHeaderData drv fl st hdr =
     (case insert_dataset drv st hdr of
        (Inr lastID, st1) \<Rightarrow> (save_summaries drv st1 lastID hdr, Inr lastID)
      | (Inl OtherError, st1) \<Rightarrow> (st1, Inl Panic_nil_dereference)
      | (Inl (MySQLError n), st1) \<Rightarrow>
          if n = 1062 \<and> f_force fl then
            (case lookup_dataset drv st1 (registry hdr) (serial hdr) of
               None \<Rightarrow> (st1, Inl Fatal_dataset_lookup)
             | Some lastID \<Rightarrow> (save_summaries drv st1 lastID hdr, Inr lastID))
          else (st1, Inl (Fatal_dataset_insert (MySQLError n))))"

subsection \<open>The record loop\<close>

text \<open>\<^verbatim>\<open>var counter = map[string]uint64{...}\<close>: five 64-bit counters.\<close>

record counters =
  c_ipv4 :: "64 word"
  c_asn :: "64 word"
  c_ipv6 :: "64 word"
  c_all :: "64 word"
  c_invalid :: "64 word"

definition zero_counters :: counters where
  "zero_counters = \<lparr>c_ipv4 = 0, c_asn = 0, c_ipv6 = 0, c_all = 0, c_invalid = 0\<rparr>"

text \<open>\<^verbatim>\<open>counter[matches[3]]++\<close>; the record pattern leaves three values for \<^verbatim>\<open>matches[3]\<close>.\<close>

definition bump :: "string \<Rightarrow> counters \<Rightarrow> counters" where
  "bump ty c =
     (if ty = ''ipv4'' then c\<lparr>c_ipv4 := c_ipv4 c + 1\<rparr>
      else if ty = ''asn'' then c\<lparr>c_asn := c_asn c + 1\<rparr>
      else c\<lparr>c_ipv6 := c_ipv6 c + 1\<rparr>)"

text \<open>The date of a record: \<^verbatim>\<open>00000000\<close> and the empty date become \<^verbatim>\<open>1970-01-01\<close>.\<close>

definition fix_date :: "string \<Rightarrow> string" where
  "fix_date d = (if d = ''00000000'' \<or> d = [] then ''1970-01-01'' else d)"

text \<open>
  The context of the loop: the Dataset's identifier, the header's end date and, for each
  record type, whether its statement was prepared.
\<close>

record loop_ctx =
  lastID :: int
  ctx_enddate :: string
  stmt_ok :: "string \<Rightarrow> bool"

text \<open>
  One pass of the loop body on one line, without the \<^verbatim>\<open>counter["all"]++\<close> of the loop
  header. \<^verbatim>\<open>Exec\<close> on a nil statement is a nil-pointer panic, and so is
  \<^verbatim>\<open>driverErr.Number\<close> after an error of another type than \<^verbatim>\<open>*mysql.MySQLError\<close>.
  After a \<^verbatim>\<open>MySQLError\<close> the code prints a warning, or nothing when the number is 1062 and
  force mode is on; the line counts under its type either way.
\<close>

definition process_line :: "'st driver \<Rightarrow> flags \<Rightarrow> loop_ctx \<Rightarrow> 'st \<Rightarrow> counters \<Rightarrow> string \<Rightarrow> 'st \<times> (failure + counters)" where
  "process_line drv fl ctx st cnt line =
     (case match_record line of
        None \<Rightarrow> (st, Inr (cnt\<lparr>c_invalid := c_invalid cnt + 1\<rparr>))
      | Some m \<Rightarrow>
          if \<not> stmt_ok ctx (m ! 2) then (st, Inl Panic_nil_dereference)
          else
            (case exec_record drv st (m ! 2) (lastID ctx) (ctx_enddate ctx)
                    [m ! 0, m ! 1, m ! 3, m ! 4, fix_date (m ! 5), m ! 6, m ! 7, []] of
               (None, st') \<Rightarrow> (st', Inr (bump (m ! 2) cnt))
             | (Some (MySQLError n), st') \<Rightarrow> (st', Inr (bump (m ! 2) cnt))
             | (Some OtherError, st') \<Rightarrow> (st', Inl Panic_nil_dereference)))"

text \<open>
  \<^verbatim>\<open>for counter["all"] = 0; scanner.Scan(); counter["all"]++\<close>: the loop runs until the
  first false \<^verbatim>\<open>Scan\<close>.
\<close>

fun stream_records :: "'st driver \<Rightarrow> flags \<Rightarrow> loop_ctx \<Rightarrow> 'st \<Rightarrow> counters \<Rightarrow> string option list \<Rightarrow> 'st \<times> (failure + counters)" where
  "stream_records drv fl ctx st cnt [] = (st, Inr cnt)"
| "stream_records drv fl ctx st cnt (None # sc) = (st, Inr cnt)"
| "stream_records drv fl ctx st cnt (Some line # sc) =
     (case process_line drv fl ctx st cnt line of
        (st', Inl f) \<Rightarrow> (st', Inl f)
      | (st', Inr cnt') \<Rightarrow> stream_records drv fl ctx st' (cnt'\<lparr>c_all := c_all cnt' + 1\<rparr>) sc)"

text \<open>
  \<^verbatim>\<open>func parseData\<close>. The header's error result is not passed on by \<^verbatim>\<open>parseHeader\<close>,
  which returns nothing: \<^verbatim>\<open>saveHeaderData\<close> runs after every header that did not end
  the process. The three statements are closed by \<^verbatim>\<open>defer\<close> when the function returns;
  \<^verbatim>\<open>Close\<close> on a nil statement is a nil-pointer panic.
\<close>

definition prepare_all :: "'st driver \<Rightarrow> 'st \<Rightarrow> int \<Rightarrow> string \<Rightarrow> loop_ctx" where
  "prepare_all drv st lid ed =
     \<lparr>lastID = lid, ctx_enddate = ed, stmt_ok = (\<lambda>k. prepare drv st k lid ed)\<rparr>"

definition close_all :: "loop_ctx \<Rightarrow> failure + counters \<Rightarrow> failure + counters" where
  "close_all ctx r =
     (if stmt_ok ctx ''ipv4'' \<and> stmt_ok ctx ''asn'' \<and> stmt_ok ctx ''ipv6'' then r
      else Inl Panic_nil_dereference)"

text \<open>The part of \<^verbatim>\<open>parseData\<close> after the call of \<^verbatim>\<open>parseHeader\<close>.\<close>

definition save_and_stream :: "'st driver \<Rightarrow> flags \<Rightarrow> 'st \<Rightarrow> FileHeader \<Rightarrow> string option list \<Rightarrow> 'st \<times> (failure + counters)" where
  "save_and_stream drv fl st hdr sc =
     (case saveHeaderData drv fl st hdr of
        (st1, Inl f) \<Rightarrow> (st1, Inl f)
      | (st1, Inr lid) \<Rightarrow>
          (let ctx = prepare_all drv st1 lid (enddate hdr);
               (st2, r) = stream_records drv fl ctx st1 zero_counters sc
           in (st2, close_all ctx r)))"

definition parseData :: "'st driver \<Rightarrow> flags \<Rightarrow> 'st \<Rightarrow> string \<Rightarrow> 'st \<times> (failure + counters)" where
  "parseData drv fl st data =
     (case parseHeader fl (NewScanner data) zero_header of
        Inl f \<Rightarrow> (st, Inl f)
      | Inr (hdr, sc) \<Rightarrow> save_and_stream drv fl st hdr sc)"

section \<open>The logical store of the schema\<close>

text \<open>
  The store behind the driver is not part of the importer. Its tables and their
  uniqueness constraints are those of the schema file: \<^verbatim>\<open>Datasets\<close> with
  \<^verbatim>\<open>UNIQUE(ID_Registries, serial)\<close>, \<^verbatim>\<open>Summaries\<close> with \<^verbatim>\<open>UNIQUE(ID_Datasets, RecordType)\<close>,
  and the three \<^verbatim>\<open>Records_<type>\<close> tables, each unique on registry, country code, the
  two key columns, date and state. This store keeps the values as the importer sends
  them, gives every new row the next identifier of its table, answers an insert that
  repeats a unique key with error 1062 and changes nothing then. Column types,
  conversions and the text of the statements are the engine's matter and are left out.
\<close>

record dataset_row =
  ds_id :: int
  ds_registry :: string
  ds_serial :: nat
  ds_version :: string
  ds_records :: nat
  ds_startdate :: string
  ds_enddate :: string
  ds_UTCoffset :: int

record summary_row =
  sm_id :: int
  sm_dataset :: int
  sm_type :: string
  sm_count :: nat
  sm_inserted :: string

record record_row =
  rr_id :: int
  rr_dataset :: int
  rr_values :: "string list"
  rr_inserted :: string

record store =
  Datasets :: "dataset_row list"
  Summaries :: "summary_row list"
  Records_ipv4 :: "record_row list"
  Records_asn :: "record_row list"
  Records_ipv6 :: "record_row list"

definition empty_store :: store where
  "empty_store = \<lparr>Datasets = [], Summaries = [], Records_ipv4 = [], Records_asn = [],
     Records_ipv6 = []\<rparr>"

text \<open>
  The table \<^verbatim>\<open>"Records_"+k\<close> of a statement; the importer prepares statements for the
  three record types only.
\<close>

definition records_of :: "store \<Rightarrow> string \<Rightarrow> record_row list" where
  "records_of st ty =
     (if ty = ''ipv4'' then Records_ipv4 st
      else if ty = ''asn'' then Records_asn st else Records_ipv6 st)"

definition add_record :: "store \<Rightarrow> string \<Rightarrow> record_row \<Rightarrow> store" where
  "add_record st ty r =
     (if ty = ''ipv4'' then st\<lparr>Records_ipv4 := Records_ipv4 st @ [r]\<rparr>
      else if ty = ''asn'' then st\<lparr>Records_asn := Records_asn st @ [r]\<rparr>
      else st\<lparr>Records_ipv6 := Records_ipv6 st @ [r]\<rparr>)"

definition ds_key :: "dataset_row \<Rightarrow> string \<times> nat" where
  "ds_key r = (ds_registry r, ds_serial r)"

definition sm_key :: "summary_row \<Rightarrow> int \<times> string" where
  "sm_key r = (sm_dataset r, sm_type r)"

text \<open>Registry, country code, the two key columns, date and state: the first six values.\<close>

definition rr_key :: "record_row \<Rightarrow> string list" where
  "rr_key r = take 6 (rr_values r)"

definition store_insert_dataset :: "store \<Rightarrow> FileHeader \<Rightarrow> (store_error + int) \<times> store" where
  "store_insert_dataset st hdr =
     (if (registry hdr, serial hdr) \<in> set (map ds_key (Datasets st))
      then (Inl (MySQLError 1062), st)
      else (let i = int (length (Datasets st)) + 1 in
            (Inr i, st\<lparr>Datasets := Datasets st @
               [\<lparr>ds_id = i, ds_registry = registry hdr, ds_serial = serial hdr,
                 ds_version = version hdr, ds_records = records hdr,
                 ds_startdate = startdate hdr, ds_enddate = enddate hdr,
                 ds_UTCoffset = UTCoffset hdr\<rparr>]\<rparr>)))"

definition store_lookup_dataset :: "store \<Rightarrow> string \<Rightarrow> nat \<Rightarrow> int option" where
  "store_lookup_dataset st reg ser =
     map_option ds_id (find (\<lambda>r. ds_key r = (reg, ser)) (Datasets st))"

definition store_insert_summary :: "store \<Rightarrow> int \<Rightarrow> string \<Rightarrow> nat \<Rightarrow> string \<Rightarrow> store_error option \<times> store" where
  "store_insert_summary st did ty n ed =
     (if (did, ty) \<in> set (map sm_key (Summaries st))
      then (Some (MySQLError 1062), st)
      else (None, st\<lparr>Summaries := Summaries st @
              [\<lparr>sm_id = int (length (Summaries st)) + 1, sm_dataset = did, sm_type = ty,
                sm_count = n, sm_inserted = ed\<rparr>]\<rparr>))"

definition store_exec_record :: "store \<Rightarrow> string \<Rightarrow> int \<Rightarrow> string \<Rightarrow> string list \<Rightarrow> store_error option \<times> store" where
  "store_exec_record st ty did ed vals =
     (if take 6 vals \<in> set (map rr_key (records_of st ty))
      then (Some (MySQLError 1062), st)
      else (None, add_record st ty
              \<lparr>rr_id = int (length (records_of st ty)) + 1, rr_dataset = did,
               rr_values = vals, rr_inserted = ed\<rparr>))"

definition schema_store :: "store driver" where
  "schema_store =
     \<lparr>insert_dataset = store_insert_dataset, lookup_dataset = store_lookup_dataset,
      insert_summary = store_insert_summary, prepare = (\<lambda>st ty did ed. True),
      exec_record = store_exec_record\<rparr>"

section \<open>Notions the properties are stated with\<close>

text \<open>The number a string of decimal digits denotes.\<close>

definition decimal :: "string \<Rightarrow> nat" where
  "decimal ds = foldl (\<lambda>n c. n * 10 + digit_val c) 0 ds"

text \<open>A non-empty string of characters of one class.\<close>

definition run_of :: "(char \<Rightarrow> bool) \<Rightarrow> string \<Rightarrow> bool" where
  "run_of P s = (s \<noteq> [] \<and> list_all P s)"

text \<open>A run that ended normally, and a run that ended early.\<close>

definition finished :: "'st \<times> (failure + counters) \<Rightarrow> bool" where
  "finished r = (case snd r of Inr c \<Rightarrow> True | Inl f \<Rightarrow> False)"

text \<open>
  A version line assembled from its fields, as the input grammar writes it:
  \<^verbatim>\<open>version|registry|serial|recordCount|startDate|endDate|\<close> and the rest of the line.
\<close>

definition version_line :: "string \<Rightarrow> string \<Rightarrow> string \<Rightarrow> string \<Rightarrow> string \<Rightarrow> string \<Rightarrow> string \<Rightarrow> string" where
  "version_line ver reg ser cnt sd ed rest =
     ver @ ''|'' @ reg @ ''|'' @ ser @ ''|'' @ cnt @ ''|'' @ sd @ ''|'' @ ed @ ''|'' @ rest"

definition wellformed_version :: "string \<Rightarrow> string \<Rightarrow> string \<Rightarrow> string \<Rightarrow> string \<Rightarrow> string \<Rightarrow> bool" where
  "wellformed_version ver reg ser cnt sd ed =
     (run_of is_version_char ver \<and> reg \<in> set registries \<and> run_of is_digit ser \<and>
      run_of is_digit cnt \<and> run_of is_digit sd \<and> run_of is_digit ed)"

text \<open>
  A store whose connection is lost: every \<^verbatim>\<open>Exec\<close> of a record statement returns an
  error of the driver (such as \<^verbatim>\<open>invalid connection\<close>), which is no
  \<^verbatim>\<open>*mysql.MySQLError\<close>, and changes nothing.
\<close>

definition lost_connection :: "store driver" where
  "lost_connection = schema_store\<lparr>exec_record := (\<lambda>st ty did ed vals. (Some OtherError, st))\<rparr>"

text \<open>
  For the re-import properties: a table holds a unique key; the eight values the loop
  sends for a matched line; and a store that already holds the key of every record line
  a scanner state will stream.
\<close>

definition has_key :: "store \<Rightarrow> string \<Rightarrow> string list \<Rightarrow> bool" where
  "has_key st ty k = (k \<in> set (map rr_key (records_of st ty)))"

definition line_values :: "string list \<Rightarrow> string list" where
  "line_values m = [m ! 0, m ! 1, m ! 3, m ! 4, fix_date (m ! 5), m ! 6, m ! 7, []]"

fun covered :: "store \<Rightarrow> string option list \<Rightarrow> bool" where
  "covered st [] = True"
| "covered st (None # sc) = True"
| "covered st (Some line # sc) =
     ((case match_record line of
         None \<Rightarrow> True
       | Some m \<Rightarrow> has_key st (m ! 2) (take 6 (line_values m))) \<and> covered st sc)"

text \<open>
  A store in which a header is saved under a Dataset identifier: the lookup by registry
  and serial gives the identifier, and the Dataset's three Summary keys are taken.
\<close>

definition saved :: "store \<Rightarrow> FileHeader \<Rightarrow> int \<Rightarrow> bool" where
  "saved st hdr lid =
     (store_lookup_dataset st (registry hdr) (serial hdr) = Some lid \<and>
      (registry hdr, serial hdr) \<in> set (map ds_key (Datasets st)) \<and>
      (lid, ''ipv4'') \<in> set (map sm_key (Summaries st)) \<and>
      (lid, ''asn'') \<in> set (map sm_key (Summaries st)) \<and>
      (lid, ''ipv6'') \<in> set (map sm_key (Summaries st)))"



text \<open>
  An input of six lines: the version line, three summary lines, a record line and a line
  that is no record.
\<close>

definition example_file :: string where
  "example_file =
     ''2|apnic|20230101|2|19830613|20230101|+1000'' @ [newline] @
     ''apnic|*|asn|*|0|summary'' @ [newline] @
     ''apnic|*|ipv4|*|2|summary'' @ [newline] @
     ''apnic|*|ipv6|*|0|summary'' @ [newline] @
     ''apnic|JP|ipv4|103.2.0.0|1024|20120101|allocated'' @ [newline] @
     ''not a record'' @ [newline]"

text \<open>The header of the example file and the logical store after its first import.\<close>

definition example_header :: FileHeader where
  "example_header =
     \<lparr>version = ''2'', registry = ''apnic'', serial = 20230101, records = 2,
      startdate = ''19830613'', enddate = ''20230101'', UTCoffset = 10,
      asnCount = 0, ipv4Count = 2, ipv6Count = 0\<rparr>"

definition example_store :: store where
  "example_store =
     \<lparr>Datasets =
        [\<lparr>ds_id = 1, ds_registry = ''apnic'', ds_serial = 20230101, ds_version = ''2'',
          ds_records = 2, ds_startdate = ''19830613'', ds_enddate = ''20230101'',
          ds_UTCoffset = 10\<rparr>],
      Summaries =
        [\<lparr>sm_id = 1, sm_dataset = 1, sm_type = ''ipv4'', sm_count = 2, sm_inserted = ''20230101''\<rparr>,
         \<lparr>sm_id = 2, sm_dataset = 1, sm_type = ''asn'', sm_count = 0, sm_inserted = ''20230101''\<rparr>,
         \<lparr>sm_id = 3, sm_dataset = 1, sm_type = ''ipv6'', sm_count = 0, sm_inserted = ''20230101''\<rparr>],
      Records_ipv4 =
        [\<lparr>rr_id = 1, rr_dataset = 1,
          rr_values = [''apnic'', ''JP'', ''103.2.0.0'', ''1024'', ''20120101'', ''allocated'', [], []],
          rr_inserted = ''20230101''\<rparr>],
      Records_asn = [], Records_ipv6 = []\<rparr>"

text \<open>The flags of the two modes, for the examples.\<close>

definition strict_flags :: flags where
  "strict_flags = \<lparr>f_force = False, f_invalid_hdr_ok = False\<rparr>"

definition force_flags :: flags where
  "force_flags = \<lparr>f_force = True, f_invalid_hdr_ok = False\<rparr>"

definition tolerant_flags :: flags where
  "tolerant_flags = \<lparr>f_force = False, f_invalid_hdr_ok = True\<rparr>"

text \<open>The lines a run of the record loop streams: the results of \<^verbatim>\<open>Scan\<close> up to the first false one.\<close>

definition streamed :: "string option list \<Rightarrow> string option list" where
  "streamed sc = takeWhile (\<lambda>x. x \<noteq> None) sc"

text \<open>
  A line that the loop at the head of \<^verbatim>\<open>parseHeader\<close> passes over: it starts with
  \<^verbatim>\<open>#\<close> or with a carriage return.
\<close>

definition header_comment :: "string \<Rightarrow> bool" where
  "header_comment l = (l \<noteq> [] \<and> (hd l = CHR ''#'' \<or> hd l = carriage_return))"

text \<open>
  The lines left for the record loop, of the lines that follow the first line that is no
  header comment: all of them when that line is no version line, all but the first three
  when it is one.
\<close>

definition after_header :: "string \<Rightarrow> string list \<Rightarrow> string list" where
  "after_header vl after = (if match_version vl = None then after else drop 3 after)"

text \<open>
  An input with a comment before the version line and, after the three summary lines,
  a record line, a comment line and an empty line.
\<close>

definition commented_file :: string where
  "commented_file =
     ''# statistics file'' @ [newline] @
     ''2|apnic|20230101|1|19830613|20230101|+1000'' @ [newline] @
     ''apnic|*|asn|*|0|summary'' @ [newline] @
     ''apnic|*|ipv4|*|1|summary'' @ [newline] @
     ''apnic|*|ipv6|*|0|summary'' @ [newline] @
     ''apnic|JP|ipv4|103.2.0.0|1024|20120101|allocated'' @ [newline] @
     ''# end of file'' @ [newline] @
     [newline]"

text \<open>The same without the leading comment and with another record line.\<close>

definition late_comment_file :: string where
  "late_comment_file =
     ''2|ripencc|20230101|1|19830613|20230101|+0100'' @ [newline] @
     ''ripencc|*|asn|*|1|summary'' @ [newline] @
     ''ripencc|*|ipv4|*|0|summary'' @ [newline] @
     ''ripencc|*|ipv6|*|0|summary'' @ [newline] @
     ''ripencc|NL|asn|1101|1|19930901|allocated'' @ [newline] @
     ''# end of file'' @ [newline] @
     [newline]"

section \<open>Numeric conversion and the header pattern, proved\<close>

lemma foldl_decimal_ge: "n \<le> foldl (\<lambda>n c. n * 10 + digit_val c) n ds"
proof (induction ds arbitrary: n)
  case Nil
  show ?case by simp
next
  case (Cons c cs)
  have "n \<le> n * 10 + digit_val c" by simp
  also have "\<dots> \<le> foldl (\<lambda>n c. n * 10 + digit_val c) (n * 10 + digit_val c) cs"
    by (rule Cons.IH)
  finally show ?case by simp
qed

lemma ParseUint_loop_digits:
  "list_all is_digit ds \<Longrightarrow> n \<le> maxVal \<Longrightarrow> maxVal \<le> maxUint64 \<Longrightarrow>
   ParseUint_loop maxVal n ds =
     (if foldl (\<lambda>n c. n * 10 + digit_val c) n ds \<le> maxVal
      then (foldl (\<lambda>n c. n * 10 + digit_val c) n ds, None)
      else (maxVal, Some ErrRange))"
proof (induction ds arbitrary: n)
  case Nil
  then show ?case by simp
next
  case (Cons c cs)
  let ?n' = "n * 10 + digit_val c"
  have dig: "is_digit c" and rest: "list_all is_digit cs" using Cons.prems(1) by simp_all
  have ge: "?n' \<le> foldl (\<lambda>n c. n * 10 + digit_val c) ?n' cs" by (rule foldl_decimal_ge)
  show ?case
  proof (cases "?n' \<le> maxVal")
    case True
    then have "n < maxUint64 div 10 + 1" using Cons.prems(3) by (simp add: maxUint64_def)
    with True dig Cons.prems(3) Cons.IH [OF rest True Cons.prems(3)] show ?thesis by simp
  next
    case False
    with ge have "\<not> foldl (\<lambda>n c. n * 10 + digit_val c) ?n' cs \<le> maxVal" by linarith
    with False dig show ?thesis by simp
  qed
qed

lemma ParseUint_digits:
  assumes "run_of is_digit ds" "bitSize \<le> 64"
  shows "fst (ParseUint ds bitSize) = min (decimal ds) (2 ^ bitSize - 1)"
proof -
  have "(2::nat) ^ bitSize \<le> 2 ^ 64" using assms(2) by (rule power_increasing) simp
  then have le: "(2::nat) ^ bitSize - 1 \<le> maxUint64" by (simp add: maxUint64_def)
  from assms(1) have ne: "ds \<noteq> []" and dg: "list_all is_digit ds" by (simp_all add: run_of_def)
  show ?thesis
    using ne ParseUint_loop_digits [OF dg _ le, of 0]
    by (simp add: ParseUint_def decimal_def min_def)
qed

lemma take_class1_run:
  assumes "run_of P xs" "\<not> P c"
  shows "take_class1 P (xs @ c # ys) = Some (xs, c # ys)"
proof -
  from assms(1) have ne: "xs \<noteq> []" and all: "\<And>x. x \<in> set xs \<Longrightarrow> P x"
    by (simp_all add: run_of_def list_all_iff)
  have "takeWhile P (xs @ c # ys) = xs" using all assms(2) by (simp add: takeWhile_append2)
  moreover have "dropWhile P (xs @ c # ys) = c # ys" using all assms(2) by (simp add: dropWhile_append2)
  ultimately show ?thesis using ne by (simp add: take_class1_def)
qed

lemma take_alt_registries:
  "reg \<in> set registries \<Longrightarrow> take_alt registries (reg @ r) = Some (reg, r)"
  by (auto simp: registries_def)

lemma match_version_wellformed:
  assumes "wellformed_version ver reg ser cnt sd ed"
  shows "match_version (version_line ver reg ser cnt sd ed rest) =
           Some [[last ver], reg, ser, cnt, sd, ed, takeWhile (\<lambda>c. c \<noteq> newline) rest]"
proof -
  have p1: "\<not> is_version_char CHR ''|''" by (simp add: is_version_char_def)
  have p2: "\<not> is_digit CHR ''|''" by (simp add: is_digit_def)
  from assms have v: "run_of is_version_char ver" and r: "reg \<in> set registries"
    and d: "run_of is_digit ser" "run_of is_digit cnt" "run_of is_digit sd" "run_of is_digit ed"
    by (simp_all add: wellformed_version_def)
  show ?thesis
    by (simp add: match_version_def version_line_def expect_pipe_def
        take_class1_run [OF v p1] take_class1_run [OF d(1) p2] take_class1_run [OF d(2) p2]
        take_class1_run [OF d(3) p2] take_class1_run [OF d(4) p2] take_alt_registries [OF r])
qed


lemma ParseUint_exact:
  assumes "run_of is_digit ds" "bitSize \<le> 64" "decimal ds \<le> 2 ^ bitSize - 1"
  shows "ParseUint ds bitSize = (decimal ds, None)"
proof -
  have "(2::nat) ^ bitSize \<le> 2 ^ 64" using assms(2) by (rule power_increasing) simp
  then have le: "(2::nat) ^ bitSize - 1 \<le> maxUint64" by (simp add: maxUint64_def)
  from assms(1) have ne: "ds \<noteq> []" and dg: "list_all is_digit ds" by (simp_all add: run_of_def)
  show ?thesis
    using ne assms(3) ParseUint_loop_digits [OF dg _ le, of 0]
    by (simp add: ParseUint_def decimal_def)
qed

lemma go_div_nonneg: "go_div (int n) 100 = int (n div 100)"
  by (cases "n = 0") (simp_all add: go_div_def zdiv_int)

lemma go_div_neg: "go_div (- int n) 100 = - int (n div 100)"
  by (cases "n = 0") (simp_all add: go_div_def zdiv_int)

lemma ParseInt_plus:
  assumes ex: "ParseUint ds 32 = (decimal ds, None)" and lt: "decimal ds < 2147483648"
  shows "ParseInt (CHR ''+'' # ds) 32 = (int (decimal ds), None)"
  using lt by (simp add: ParseInt_def ex Let_def)

lemma ParseInt_minus:
  assumes ex: "ParseUint ds 32 = (decimal ds, None)" and lt: "decimal ds < 2147483648"
  shows "ParseInt (CHR ''-'' # ds) 32 = (- int (decimal ds), None)"
  using lt by (simp add: ParseInt_def ex Let_def)

lemma ParseInt_unsigned:
  assumes ex: "ParseUint (c # cs) 32 = (decimal (c # cs), None)"
    and lt: "decimal (c # cs) < 2147483648"
    and "c \<noteq> CHR ''+''" "c \<noteq> CHR ''-''"
  shows "ParseInt (c # cs) 32 = (int (decimal (c # cs)), None)"
  using lt assms(3,4) by (simp add: ParseInt_def ex Let_def)

lemma ParseInt_signed:
  assumes "run_of is_digit ds" "decimal ds < 2147483648" "sign \<in> set [[], ''+'', ''-'']"
  shows "fst (ParseInt (sign @ ds) 32) = (if sign = ''-'' then - int (decimal ds) else int (decimal ds))"
proof -
  have le: "decimal ds \<le> 2 ^ 32 - 1" using assms(2) by simp
  have ex: "ParseUint ds 32 = (decimal ds, None)"
    by (rule ParseUint_exact [OF assms(1) _ le]) simp
  from assms(1) obtain c cs where ds: "ds = c # cs" and c: "is_digit c"
    by (cases ds) (simp_all add: run_of_def)
  from c have cne: "c \<noteq> CHR ''+''" "c \<noteq> CHR ''-''" by (auto simp: is_digit_def)
  from assms(3) consider "sign = []" | "sign = ''+''" | "sign = ''-''" by auto
  then show ?thesis
  proof cases
    case 1
    have "ParseInt ds 32 = (int (decimal ds), None)"
      unfolding ds by (rule ParseInt_unsigned [OF ex [unfolded ds] assms(2) [unfolded ds] cne])
    with 1 show ?thesis by simp
  next
    case 2
    with ParseInt_plus [OF ex assms(2)] show ?thesis by simp
  next
    case 3
    with ParseInt_minus [OF ex assms(2)] show ?thesis by simp
  qed
qed

lemma digit_not_newline: "is_digit c \<Longrightarrow> c \<noteq> newline"
  by (auto simp: is_digit_def newline_def)

lemma digits_no_newline: "run_of is_digit ds \<Longrightarrow> takeWhile (\<lambda>c. c \<noteq> newline) ds = ds"
proof -
  assume "run_of is_digit ds"
  then have "\<And>c. c \<in> set ds \<Longrightarrow> c \<noteq> newline"
    using digit_not_newline by (simp add: run_of_def list_all_iff)
  then show ?thesis by (simp add: takeWhile_eq_all_conv)
qed

lemma skip_comments_start:
  "line \<noteq> [] \<Longrightarrow> hd line \<noteq> CHR ''#'' \<Longrightarrow> hd line \<noteq> carriage_return \<Longrightarrow>
   skip_comments line sc = Inr (line, sc)"
  by (cases line) simp_all

lemma version_line_start:
  assumes "wellformed_version ver reg ser cnt sd ed"
  shows "version_line ver reg ser cnt sd ed rest \<noteq> []"
    and "hd (version_line ver reg ser cnt sd ed rest) \<noteq> CHR ''#''"
    and "hd (version_line ver reg ser cnt sd ed rest) \<noteq> carriage_return"
proof -
  from assms obtain c cs where ver: "ver = c # cs" and c: "is_version_char c"
    by (cases ver) (simp_all add: wellformed_version_def run_of_def)
  show "version_line ver reg ser cnt sd ed rest \<noteq> []" by (simp add: version_line_def ver)
  show "hd (version_line ver reg ser cnt sd ed rest) \<noteq> CHR ''#''"
    using c by (auto simp: version_line_def ver is_version_char_def)
  show "hd (version_line ver reg ser cnt sd ed rest) \<noteq> carriage_return"
    using c by (auto simp: version_line_def ver is_version_char_def carriage_return_def)
qed

lemma parseSummaryLine_keeps:
  "registry (parseSummaryLine hdr l) = registry hdr"
  "serial (parseSummaryLine hdr l) = serial hdr"
  "records (parseSummaryLine hdr l) = records hdr"
  "startdate (parseSummaryLine hdr l) = startdate hdr"
  "enddate (parseSummaryLine hdr l) = enddate hdr"
  "UTCoffset (parseSummaryLine hdr l) = UTCoffset hdr"
  "version (parseSummaryLine hdr l) = version hdr"
  by (simp_all add: parseSummaryLine_def split: option.splits prod.splits)

lemma read_summaries_keeps:
  "registry (fst (read_summaries i hdr sc)) = registry hdr \<and>
   serial (fst (read_summaries i hdr sc)) = serial hdr \<and>
   records (fst (read_summaries i hdr sc)) = records hdr \<and>
   startdate (fst (read_summaries i hdr sc)) = startdate hdr \<and>
   enddate (fst (read_summaries i hdr sc)) = enddate hdr \<and>
   UTCoffset (fst (read_summaries i hdr sc)) = UTCoffset hdr \<and>
   version (fst (read_summaries i hdr sc)) = version hdr"
  by (induction i hdr sc rule: read_summaries.induct) (simp_all add: parseSummaryLine_keeps)

lemma parseVersionLine_wellformed:
  assumes "wellformed_version ver reg ser cnt sd ed"
  shows "parseVersionLine fl zero_header (version_line ver reg ser cnt sd ed rest) =
     Inr (True,
       \<lparr>version = [last ver], registry = reg,
        serial = fst (ParseUint ser 32), records = fst (ParseUint cnt 32),
        startdate = (if sd = ''00000000'' then ''19700101'' else sd), enddate = ed,
        UTCoffset = go_div (fst (ParseInt (takeWhile (\<lambda>c. c \<noteq> newline) rest) 32)) 100,
        asnCount = 0, ipv4Count = 0, ipv6Count = 0\<rparr>)"
  apply (simp only: parseVersionLine_def match_version_wellformed [OF assms] option.case)
  apply (simp add: Let_def zero_header_def split del: if_split cong: if_cong)
  apply (cases "sd = ''00000000''")
   apply (simp_all only: simp_thms if_True if_False)
  done

lemma parseHeader_wellformed:
  assumes "wellformed_version ver reg ser cnt sd ed"
  shows "parseHeader fl (Some (version_line ver reg ser cnt sd ed rest) # sc) zero_header =
     Inr (read_summaries 3
       \<lparr>version = [last ver], registry = reg,
        serial = fst (ParseUint ser 32), records = fst (ParseUint cnt 32),
        startdate = (if sd = ''00000000'' then ''19700101'' else sd), enddate = ed,
        UTCoffset = go_div (fst (ParseInt (takeWhile (\<lambda>c. c \<noteq> newline) rest) 32)) 100,
        asnCount = 0, ipv4Count = 0, ipv6Count = 0\<rparr> sc)"
proof -
  have sk: "skip_comments (version_line ver reg ser cnt sd ed rest) sc =
      Inr (version_line ver reg ser cnt sd ed rest, sc)"
    by (rule skip_comments_start) (rule version_line_start [OF assms])+
  show ?thesis
    unfolding parseHeader_def
    by (simp only: list.case option.case sk sum.case prod.case
        parseVersionLine_wellformed [OF assms] if_True)
qed

lemma parseHeader_wellformed_fields:
  assumes "wellformed_version ver reg ser cnt sd ed"
  shows "\<exists>hdr sc'.
      parseHeader fl (Some (version_line ver reg ser cnt sd ed rest) # sc) zero_header = Inr (hdr, sc') \<and>
      registry hdr = reg \<and> serial hdr = fst (ParseUint ser 32) \<and>
      records hdr = fst (ParseUint cnt 32) \<and>
      startdate hdr = (if sd = ''00000000'' then ''19700101'' else sd) \<and>
      UTCoffset hdr = go_div (fst (ParseInt (takeWhile (\<lambda>c. c \<noteq> newline) rest) 32)) 100"
proof -
  let ?h = "\<lparr>version = [last ver], registry = reg,
        serial = fst (ParseUint ser 32), records = fst (ParseUint cnt 32),
        startdate = (if sd = ''00000000'' then ''19700101'' else sd), enddate = ed,
        UTCoffset = go_div (fst (ParseInt (takeWhile (\<lambda>c. c \<noteq> newline) rest) 32)) 100,
        asnCount = 0, ipv4Count = 0, ipv6Count = 0\<rparr>"
  have "parseHeader fl (Some (version_line ver reg ser cnt sd ed rest) # sc) zero_header =
      Inr (fst (read_summaries 3 ?h sc), snd (read_summaries 3 ?h sc))"
    using parseHeader_wellformed [OF assms, of fl rest sc] by simp
  moreover have "registry (fst (read_summaries 3 ?h sc)) = reg"
    "serial (fst (read_summaries 3 ?h sc)) = fst (ParseUint ser 32)"
    "records (fst (read_summaries 3 ?h sc)) = fst (ParseUint cnt 32)"
    "startdate (fst (read_summaries 3 ?h sc)) = (if sd = ''00000000'' then ''19700101'' else sd)"
    "UTCoffset (fst (read_summaries 3 ?h sc)) =
       go_div (fst (ParseInt (takeWhile (\<lambda>c. c \<noteq> newline) rest) 32)) 100"
    using read_summaries_keeps [of 3 ?h sc] by simp_all
  ultimately show ?thesis by blast
qed

lemma read_summaries_numeral:
  "read_summaries (numeral k) hdr sc =
     (case sc of
        [] \<Rightarrow> (hdr, [])
      | None # sc' \<Rightarrow> (hdr, sc')
      | Some l # sc' \<Rightarrow> read_summaries (pred_numeral k) (parseSummaryLine hdr l) sc')"
  by (simp add: numeral_eq_Suc split: list.splits option.splits)

lemmas eval_header = read_summaries_numeral parseSummaryLine_def match_summary_def record_types_def
  parseHeader_def parseVersionLine_def match_version_def take_class1_def expect_pipe_def
  registries_def is_digit_def is_version_char_def ParseUint_def ParseInt_def maxUint64_def
  digit_val_def go_div_def zero_header_def newline_def carriage_return_def Let_def

lemmas eval_wellformed =
  wellformed_version_def run_of_def is_digit_def is_version_char_def registries_def
  version_line_def decimal_def digit_val_def

text \<open>
  C3, as amended. For every well-formed version line (a version of the characters
  \<^verbatim>\<open>1-9\<close> and \<^verbatim>\<open>.\<close>, one of the five registries, and serial, record count, start
  date and end date of decimal digits), \<open>parseHeader\<close> succeeds; the descriptor's
  registry is the input's, its serial and record count are the numbers the input fields
  denote, capped at \<open>2^32 - 1\<close>, and its start date is \<^verbatim>\<open>19700101\<close> when the input's
  is \<^verbatim>\<open>00000000\<close> and the input's otherwise.
\<close>

theorem parseHeader_echoes_fields:
  assumes "wellformed_version ver reg ser cnt sd ed"
  shows "\<exists>hdr sc'.
      parseHeader fl (Some (version_line ver reg ser cnt sd ed rest) # sc) zero_header = Inr (hdr, sc') \<and>
      registry hdr = reg \<and>
      serial hdr = min (decimal ser) 4294967295 \<and>
      records hdr = min (decimal cnt) 4294967295 \<and>
      startdate hdr = (if sd = ''00000000'' then ''19700101'' else sd)"
proof -
  from assms have d: "run_of is_digit ser" "run_of is_digit cnt"
    by (simp_all add: wellformed_version_def)
  have "fst (ParseUint ser 32) = min (decimal ser) 4294967295"
    "fst (ParseUint cnt 32) = min (decimal cnt) 4294967295"
    using ParseUint_digits [OF d(1), of 32] ParseUint_digits [OF d(2), of 32] by simp_all
  with parseHeader_wellformed_fields [OF assms, of fl rest sc] show ?thesis by auto
qed

theorem parseHeader_echoes_fields_witness:
  "wellformed_version ''2.3'' ''apnic'' ''20230101'' ''3'' ''00000000'' ''20230101'' \<and>
   (\<exists>hdr sc'.
      parseHeader \<lparr>f_force = False, f_invalid_hdr_ok = False\<rparr>
        [Some ''2.3|apnic|20230101|3|00000000|20230101|900''] zero_header = Inr (hdr, sc') \<and>
      registry hdr = ''apnic'' \<and> serial hdr = 20230101 \<and> records hdr = 3 \<and>
      startdate hdr = ''19700101'')"
proof -
  have wf: "wellformed_version ''2.3'' ''apnic'' ''20230101'' ''3'' ''00000000'' ''20230101''"
    by (simp add: eval_wellformed)
  show ?thesis
    using wf parseHeader_echoes_fields [OF wf,
        of "\<lparr>f_force = False, f_invalid_hdr_ok = False\<rparr>" "''900''" "[]"]
    by (simp add: version_line_def decimal_def digit_val_def)
qed

theorem parseHeader_serial_not_echoed:
  "wellformed_version ''2'' ''apnic'' ''4294967296'' ''3'' ''20230101'' ''20230101'' \<and>
   decimal ''4294967296'' = 4294967296 \<and>
   parseHeader \<lparr>f_force = False, f_invalid_hdr_ok = False\<rparr>
     [Some ''2|apnic|4294967296|3|20230101|20230101|0''] zero_header =
   Inr (\<lparr>version = ''2'', registry = ''apnic'', serial = 4294967295, records = 3,
         startdate = ''20230101'', enddate = ''20230101'', UTCoffset = 0,
         asnCount = 0, ipv4Count = 0, ipv6Count = 0\<rparr>, [])"
  by (simp add: eval_wellformed eval_header)

lemma signed_no_newline:
  assumes "run_of is_digit off" "sign \<in> set [[], ''+'', ''-'']"
  shows "takeWhile (\<lambda>c. c \<noteq> newline) (sign @ off) = sign @ off"
proof -
  have "\<And>c. c \<in> set sign \<Longrightarrow> c \<noteq> newline" using assms(2) by (auto simp: newline_def)
  then have "takeWhile (\<lambda>c. c \<noteq> newline) (sign @ off) = sign @ takeWhile (\<lambda>c. c \<noteq> newline) off"
    by (simp add: takeWhile_append2)
  then show ?thesis by (simp add: digits_no_newline [OF assms(1)])
qed

text \<open>
  C4, as amended. For every well-formed version line whose text after the sixth
  separator is a decimal numeral below \<open>2^31\<close> with an optional sign, the descriptor's
  UTC offset is that number divided by 100, rounded towards zero. So
  \<^verbatim>\<open>2.3|apnic|20230101|3|20230101|20230101|900\<close>, which ends with the offset, yields 9.
\<close>

theorem parseHeader_UTCoffset:
  assumes "wellformed_version ver reg ser cnt sd ed"
    and "run_of is_digit off" and "decimal off < 2147483648"
    and "sign \<in> set [[], ''+'', ''-'']"
  shows "\<exists>hdr sc'.
      parseHeader fl (Some (version_line ver reg ser cnt sd ed (sign @ off)) # sc) zero_header = Inr (hdr, sc') \<and>
      UTCoffset hdr = (if sign = ''-'' then - int (decimal off div 100) else int (decimal off div 100))"
proof -
  have "go_div (fst (ParseInt (takeWhile (\<lambda>c. c \<noteq> newline) (sign @ off)) 32)) 100 =
      (if sign = ''-'' then - int (decimal off div 100) else int (decimal off div 100))"
    unfolding signed_no_newline [OF assms(2,4)] ParseInt_signed [OF assms(2,3,4)]
    by (simp add: go_div_nonneg go_div_neg)
  with parseHeader_wellformed_fields [OF assms(1), of fl "sign @ off" sc] show ?thesis by auto
qed

theorem parseHeader_UTCoffset_witness:
  "wellformed_version ''2.3'' ''apnic'' ''20230101'' ''3'' ''20230101'' ''20230101'' \<and>
   run_of is_digit ''900'' \<and> decimal ''900'' < 2147483648 \<and>
   (\<exists>hdr sc'.
      parseHeader \<lparr>f_force = False, f_invalid_hdr_ok = False\<rparr>
        [Some ''2.3|apnic|20230101|3|20230101|20230101|900''] zero_header = Inr (hdr, sc') \<and>
      UTCoffset hdr = 9)"
proof -
  have wf: "wellformed_version ''2.3'' ''apnic'' ''20230101'' ''3'' ''20230101'' ''20230101''"
    by (simp add: eval_wellformed)
  have d: "run_of is_digit ''900''" by (simp add: eval_wellformed)
  have v: "decimal ''900'' = 900" by (simp add: decimal_def digit_val_def)
  have lt: "decimal ''900'' < 2147483648" by (simp add: v)
  have sg: "[] \<in> set [[], ''+'', ''-'']" by simp
  show ?thesis
    using wf d lt parseHeader_UTCoffset [OF wf d lt sg,
        of "\<lparr>f_force = False, f_invalid_hdr_ok = False\<rparr>" "[]"]
    by (simp add: version_line_def v)
qed

theorem parseHeader_UTCoffset_trailing_separator:
  "parseHeader \<lparr>f_force = False, f_invalid_hdr_ok = False\<rparr>
     [Some ''2.3|apnic|20230101|3|20230101|20230101|900|''] zero_header =
   Inr (\<lparr>version = ''3'', registry = ''apnic'', serial = 20230101, records = 3,
         startdate = ''20230101'', enddate = ''20230101'', UTCoffset = 0,
         asnCount = 0, ipv4Count = 0, ipv6Count = 0\<rparr>, [])"
  by (simp add: eval_header)

text \<open>
  C10, as amended. For every well-formed version line, \<open>parseHeader\<close> succeeds, and a
  serial or record count that denotes a number above \<open>2^32 - 1\<close> is stored as
  \<open>4294967295\<close>: the conversion has a 32-bit bound, returns the largest 32-bit value
  next to its range error, and the error is dropped.
\<close>

theorem parseHeader_saturates:
  assumes "wellformed_version ver reg ser cnt sd ed"
  shows "\<exists>hdr sc'.
      parseHeader fl (Some (version_line ver reg ser cnt sd ed rest) # sc) zero_header = Inr (hdr, sc') \<and>
      (4294967295 < decimal ser \<longrightarrow> serial hdr = 4294967295) \<and>
      (4294967295 < decimal cnt \<longrightarrow> records hdr = 4294967295)"
proof -
  from assms have d: "run_of is_digit ser" "run_of is_digit cnt"
    by (simp_all add: wellformed_version_def)
  have "fst (ParseUint ser 32) = min (decimal ser) 4294967295"
    "fst (ParseUint cnt 32) = min (decimal cnt) 4294967295"
    using ParseUint_digits [OF d(1), of 32] ParseUint_digits [OF d(2), of 32] by simp_all
  with parseHeader_wellformed_fields [OF assms, of fl rest sc] show ?thesis by auto
qed

theorem parseHeader_saturates_witness:
  "wellformed_version ''2'' ''ripencc'' ''4294967296'' ''99999999999'' ''20230101'' ''20230101'' \<and>
   4294967295 < decimal ''4294967296'' \<and> 4294967295 < decimal ''99999999999'' \<and>
   (\<exists>hdr sc'.
      parseHeader \<lparr>f_force = False, f_invalid_hdr_ok = False\<rparr>
        [Some ''2|ripencc|4294967296|99999999999|20230101|20230101|+0100''] zero_header = Inr (hdr, sc') \<and>
      serial hdr = 4294967295 \<and> records hdr = 4294967295)"
proof -
  have wf: "wellformed_version ''2'' ''ripencc'' ''4294967296'' ''99999999999'' ''20230101'' ''20230101''"
    by (simp add: eval_wellformed)
  have v: "decimal ''4294967296'' = 4294967296" "decimal ''99999999999'' = 99999999999"
    by (simp_all add: decimal_def digit_val_def)
  show ?thesis
    using wf parseHeader_saturates [OF wf,
        of "\<lparr>f_force = False, f_invalid_hdr_ok = False\<rparr>" "''+0100''" "[]"]
    by (simp add: version_line_def v)
qed

theorem parseHeader_large_serial_not_zero:
  "parseHeader \<lparr>f_force = False, f_invalid_hdr_ok = False\<rparr>
     [Some ''2|arin|18446744073709551616|4294967296|20230101|20230101|-0500''] zero_header =
   Inr (\<lparr>version = ''2'', registry = ''arin'', serial = 4294967295, records = 4294967295,
         startdate = ''20230101'', enddate = ''20230101'', UTCoffset = - 5,
         asnCount = 0, ipv4Count = 0, ipv6Count = 0\<rparr>, []) \<and>
   (4294967295::nat) \<noteq> 0"
  by (simp add: eval_header)

section \<open>Blank lines before the header\<close>

lemma NewScanner_blank_first:
  "NewScanner (newline # rest) = Some [] # scan_results (split_lines [] rest)"
  by (simp add: NewScanner_def MaxScanTokenSize_def dropCR_def)

lemma NewScanner_crlf_first:
  "NewScanner (carriage_return # newline # rest) = Some [] # scan_results (split_lines [] rest)"
  by (simp add: NewScanner_def MaxScanTokenSize_def dropCR_def newline_def carriage_return_def)

text \<open>
  C9: the code at a blank first line. An input that starts with an empty line, ended by
  a line feed alone or by carriage return and line feed, ends the run in the
  index-out-of-range panic of \<^verbatim>\<open>line[0]\<close>, whatever follows, before the store is touched.
\<close>

theorem parseData_blank_first_line_panics:
  "parseData drv fl st (newline # rest) = (st, Inl Panic_index_out_of_range) \<and>
   parseData drv fl st (carriage_return # newline # rest) = (st, Inl Panic_index_out_of_range)"
  by (simp add: parseData_def NewScanner_blank_first NewScanner_crlf_first parseHeader_def)

section \<open>The record loop and its counters\<close>

lemma bump_cases:
  "bump ty c = c\<lparr>c_ipv4 := c_ipv4 c + 1\<rparr> \<or> bump ty c = c\<lparr>c_asn := c_asn c + 1\<rparr> \<or>
   bump ty c = c\<lparr>c_ipv6 := c_ipv6 c + 1\<rparr>"
  by (simp add: bump_def)

lemma bump_keeps: "c_invalid (bump ty c) = c_invalid c" "c_all (bump ty c) = c_all c"
  by (simp_all add: bump_def)

lemma bump_sum:
  "c_ipv4 (bump ty c) + c_asn (bump ty c) + c_ipv6 (bump ty c) = c_ipv4 c + c_asn c + c_ipv6 c + 1"
  by (simp add: bump_def)

lemma process_line_Inr:
  assumes "process_line drv fl ctx st cnt line = (st', Inr cnt')"
  shows "(match_record line = None \<and> cnt' = cnt\<lparr>c_invalid := c_invalid cnt + 1\<rparr> \<and> st' = st) \<or>
         (\<exists>m. match_record line = Some m \<and> cnt' = bump (m ! 2) cnt)"
  using assms
  by (auto simp: process_line_def split: option.splits if_splits prod.splits store_error.splits)

lemma process_line_sum:
  assumes "process_line drv fl ctx st cnt line = (st', Inr cnt')"
  shows "c_invalid cnt' + c_ipv4 cnt' + c_asn cnt' + c_ipv6 cnt' =
         c_invalid cnt + c_ipv4 cnt + c_asn cnt + c_ipv6 cnt + 1 \<and> c_all cnt' = c_all cnt"
proof -
  from process_line_Inr [OF assms] show ?thesis
  proof
    assume "match_record line = None \<and> cnt' = cnt\<lparr>c_invalid := c_invalid cnt + 1\<rparr> \<and> st' = st"
    then show ?thesis by simp
  next
    assume "\<exists>m. match_record line = Some m \<and> cnt' = bump (m ! 2) cnt"
    then obtain m where c: "cnt' = bump (m ! 2) cnt" by blast
    have "c_invalid cnt' + (c_ipv4 cnt' + c_asn cnt' + c_ipv6 cnt') =
          c_invalid cnt + (c_ipv4 cnt + c_asn cnt + c_ipv6 cnt + 1)"
      unfolding c bump_sum bump_keeps ..
    then show ?thesis by (simp add: c bump_keeps add.assoc)
  qed
qed

lemma stream_records_counts:
  assumes "stream_records drv fl ctx st cnt sc = (st', Inr cnt')"
  shows "c_invalid cnt' + c_ipv4 cnt' + c_asn cnt' + c_ipv6 cnt' =
           c_invalid cnt + c_ipv4 cnt + c_asn cnt + c_ipv6 cnt + of_nat (length (streamed sc)) \<and>
         c_all cnt' = c_all cnt + of_nat (length (streamed sc))"
  using assms
proof (induction drv fl ctx st cnt sc rule: stream_records.induct)
  case (1 drv fl ctx st cnt)
  then show ?case by (simp add: streamed_def)
next
  case (2 drv fl ctx st cnt sc)
  then show ?case by (simp add: streamed_def)
next
  case (3 drv fl ctx st cnt line sc)
  from "3.prems" obtain st1 cnt1 where
    pl: "process_line drv fl ctx st cnt line = (st1, Inr cnt1)" and
    rest: "stream_records drv fl ctx st1 (cnt1\<lparr>c_all := c_all cnt1 + 1\<rparr>) sc = (st', Inr cnt')"
    by (auto split: prod.splits sum.splits)
  from "3.IH" [OF pl [symmetric] refl rest] process_line_sum [OF pl]
  show ?case by (simp add: streamed_def add.assoc add.commute)
qed

lemmas eval_scanner =
  NewScanner_def MaxScanTokenSize_def dropCR_def

lemmas eval_record =
  process_line_def match_record_def take_cc_def states_def is_value_char_def is_upper_def
  bump_def fix_date_def

lemmas eval_store =
  schema_store_def store_insert_dataset_def store_lookup_dataset_def
  store_insert_summary_def store_exec_record_def empty_store_def ds_key_def sm_key_def
  rr_key_def records_of_def add_record_def

lemmas eval_run =
  parseData_def save_and_stream_def saveHeaderData_def save_summaries_def prepare_all_def close_all_def
  zero_counters_def strict_flags_def force_flags_def tolerant_flags_def example_file_def



lemma example_run:
  "parseData schema_store strict_flags empty_store example_file =
     (\<lparr>Datasets =
         [\<lparr>ds_id = 1, ds_registry = ''apnic'', ds_serial = 20230101, ds_version = ''2'',
           ds_records = 2, ds_startdate = ''19830613'', ds_enddate = ''20230101'',
           ds_UTCoffset = 10\<rparr>],
       Summaries =
         [\<lparr>sm_id = 1, sm_dataset = 1, sm_type = ''ipv4'', sm_count = 2, sm_inserted = ''20230101''\<rparr>,
          \<lparr>sm_id = 2, sm_dataset = 1, sm_type = ''asn'', sm_count = 0, sm_inserted = ''20230101''\<rparr>,
          \<lparr>sm_id = 3, sm_dataset = 1, sm_type = ''ipv6'', sm_count = 0, sm_inserted = ''20230101''\<rparr>],
       Records_ipv4 =
         [\<lparr>rr_id = 1, rr_dataset = 1,
           rr_values = [''apnic'', ''JP'', ''103.2.0.0'', ''1024'', ''20120101'', ''allocated'', [], []],
           rr_inserted = ''20230101''\<rparr>],
       Records_asn = [], Records_ipv6 = []\<rparr>,
      Inr \<lparr>c_ipv4 = 1, c_asn = 0, c_ipv6 = 0, c_all = 2, c_invalid = 1\<rparr>)"
  by (simp add: eval_run eval_scanner eval_header eval_record eval_store)

text \<open>What the counters hold when a run returns, in terms of what the header parser left.\<close>

lemma parseData_counters_streamed:
  assumes "parseData drv fl st data = (st', Inr cnt)"
  shows "c_invalid cnt + c_ipv4 cnt + c_asn cnt + c_ipv6 cnt = c_all cnt \<and>
         (\<exists>hdr sc. parseHeader fl (NewScanner data) zero_header = Inr (hdr, sc) \<and>
                   c_all cnt = of_nat (length (streamed sc)))"
proof -
  from assms obtain hdr sc st1 lid st2 where
    ph: "parseHeader fl (NewScanner data) zero_header = Inr (hdr, sc)" and
    sr: "stream_records drv fl (prepare_all drv st1 lid (enddate hdr)) st1 zero_counters sc = (st2, Inr cnt)"
    by (auto simp: parseData_def save_and_stream_def close_all_def Let_def
        split: sum.splits prod.splits if_splits)
  from stream_records_counts [OF sr]
  have "c_invalid cnt + c_ipv4 cnt + c_asn cnt + c_ipv6 cnt = c_all cnt"
    and "c_all cnt = of_nat (length (streamed sc))"
    by (simp_all add: zero_counters_def)
  then show ?thesis using ph by blast
qed

lemma process_line_one_counter:
  "\<forall>ctx s c line s' c'. process_line drv fl ctx s c line = (s', Inr c') \<longrightarrow>
     c' = c\<lparr>c_invalid := c_invalid c + 1\<rparr> \<or> c' = c\<lparr>c_ipv4 := c_ipv4 c + 1\<rparr> \<or>
     c' = c\<lparr>c_asn := c_asn c + 1\<rparr> \<or> c' = c\<lparr>c_ipv6 := c_ipv6 c + 1\<rparr>"
  using process_line_Inr bump_cases by metis

lemma skip_comments_leading:
  assumes "\<not> header_comment vl" "vl \<noteq> []"
  shows "header_comment c \<Longrightarrow> list_all header_comment cs \<Longrightarrow>
     skip_comments c (map Some (cs @ vl # after)) = Inr (vl, map Some after)"
proof (induction cs arbitrary: c)
  case Nil
  from Nil(1) obtain x xs where c: "c = x # xs" and x: "x = CHR ''#'' \<or> x = carriage_return"
    by (cases c) (auto simp: header_comment_def)
  from assms have "skip_comments vl (map Some after) = Inr (vl, map Some after)"
    by (intro skip_comments_start) (auto simp: header_comment_def)
  with x show ?case by (auto simp: c)
next
  case (Cons d cs)
  from Cons.prems(1) obtain x xs where c: "c = x # xs" and x: "x = CHR ''#'' \<or> x = carriage_return"
    by (cases c) (auto simp: header_comment_def)
  from Cons.prems(2) have d: "header_comment d" and cs: "list_all header_comment cs" by simp_all
  from Cons.IH [OF d cs] x show ?case by (auto simp: c)
qed

lemma read_summaries_lines:
  "snd (read_summaries n hdr (map Some ls)) = map Some (drop n ls)"
proof (induction n arbitrary: hdr ls)
  case 0
  show ?case by simp
next
  case (Suc n)
  then show ?case by (cases ls) simp_all
qed

lemma streamed_lines: "streamed (map Some ls) = map Some ls"
  by (simp add: streamed_def takeWhile_eq_all_conv)

text \<open>What the header parser leaves for the record loop.\<close>

lemma parseHeader_leaves:
  assumes "list_all header_comment cs" "\<not> header_comment vl" "vl \<noteq> []"
    and "parseHeader fl (map Some (cs @ vl # after)) hdr = Inr (hdr', sc)"
  shows "sc = map Some (after_header vl after)"
proof -
  have sk: "(case map Some (cs @ vl # after) of
              [] \<Rightarrow> Inl Panic_index_out_of_range
            | None # sc' \<Rightarrow> Inl Panic_index_out_of_range
            | Some l # sc' \<Rightarrow> skip_comments l sc') = Inr (vl, map Some after)"
  proof (cases cs)
    case Nil
    from assms(2,3) have "skip_comments vl (map Some after) = Inr (vl, map Some after)"
      by (intro skip_comments_start) (auto simp: header_comment_def)
    with Nil show ?thesis by simp
  next
    case (Cons c cs')
    with assms(1) have "header_comment c" "list_all header_comment cs'" by simp_all
    from skip_comments_leading [OF assms(2,3) this] Cons show ?thesis by simp
  qed
  show ?thesis
  proof (cases "match_version vl")
    case None
    with assms(4) show ?thesis
      unfolding parseHeader_def sk
      by (auto simp: parseVersionLine_def after_header_def split: if_splits)
  next
    case (Some m)
    with assms(4) have "\<exists>h. sc = snd (read_summaries 3 h (map Some after))"
      unfolding parseHeader_def sk
      by (auto simp: parseVersionLine_def Let_def split: if_splits) (metis snd_conv)+
    with Some show ?thesis by (auto simp: read_summaries_lines after_header_def)
  qed
qed


lemma commented_scan:
  "NewScanner commented_file =
     map Some ([''# statistics file''] @ ''2|apnic|20230101|1|19830613|20230101|+1000'' #
       [''apnic|*|asn|*|0|summary'', ''apnic|*|ipv4|*|1|summary'', ''apnic|*|ipv6|*|0|summary'',
        ''apnic|JP|ipv4|103.2.0.0|1024|20120101|allocated'', ''# end of file'', []])"
  by (simp add: commented_file_def eval_scanner newline_def carriage_return_def)

lemma commented_run:
  "snd (parseData schema_store strict_flags empty_store commented_file) =
     Inr \<lparr>c_ipv4 = 1, c_asn = 0, c_ipv6 = 0, c_all = 3, c_invalid = 2\<rparr>"
  by (simp add: commented_file_def eval_run eval_scanner eval_header eval_record eval_store)

text \<open>
  C6, as amended. When a run returns, its counters satisfy
  \<open>invalid + ipv4 + asn + ipv6 = all\<close>, and \<open>all\<close> is the number of lines streamed
  after the header: of an input whose lines are some lines that start with \<^verbatim>\<open>#\<close> or a
  carriage return, a first other line and the lines after it, these are the lines after
  it, less the first three when it is a version line. Comment lines and blank lines
  among them are not left out: they are streamed and counted, as invalid. Every pass of
  the loop body that returns has incremented exactly one of the four counters by one.
\<close>

theorem parseData_counters_after_header:
  assumes "parseData drv fl st data = (st', Inr cnt)"
    and "NewScanner data = map Some (cs @ vl # after)"
    and "list_all header_comment cs" and "\<not> header_comment vl" and "vl \<noteq> []"
  shows "c_invalid cnt + c_ipv4 cnt + c_asn cnt + c_ipv6 cnt = c_all cnt \<and>
         c_all cnt = of_nat (length (after_header vl after)) \<and>
         (\<forall>ctx s c line s' c'. process_line drv fl ctx s c line = (s', Inr c') \<longrightarrow>
            c' = c\<lparr>c_invalid := c_invalid c + 1\<rparr> \<or> c' = c\<lparr>c_ipv4 := c_ipv4 c + 1\<rparr> \<or>
            c' = c\<lparr>c_asn := c_asn c + 1\<rparr> \<or> c' = c\<lparr>c_ipv6 := c_ipv6 c + 1\<rparr>)"
proof -
  from parseData_counters_streamed [OF assms(1)] obtain hdr sc where
    sum: "c_invalid cnt + c_ipv4 cnt + c_asn cnt + c_ipv6 cnt = c_all cnt" and
    ph: "parseHeader fl (NewScanner data) zero_header = Inr (hdr, sc)" and
    al: "c_all cnt = of_nat (length (streamed sc))"
    by blast
  from parseHeader_leaves [OF assms(3,4,5) ph [unfolded assms(2)]]
  have "sc = map Some (after_header vl after)" .
  with al have "c_all cnt = of_nat (length (after_header vl after))"
    by (simp add: streamed_lines)
  with sum process_line_one_counter [of drv fl] show ?thesis by blast
qed

theorem parseData_counters_after_header_witness:
  "snd (parseData schema_store strict_flags empty_store commented_file) =
     Inr \<lparr>c_ipv4 = 1, c_asn = 0, c_ipv6 = 0, c_all = 3, c_invalid = 2\<rparr> \<and>
   list_all header_comment [''# statistics file''] \<and>
   \<not> header_comment ''2|apnic|20230101|1|19830613|20230101|+1000'' \<and>
   after_header ''2|apnic|20230101|1|19830613|20230101|+1000''
     [''apnic|*|asn|*|0|summary'', ''apnic|*|ipv4|*|1|summary'', ''apnic|*|ipv6|*|0|summary'',
      ''apnic|JP|ipv4|103.2.0.0|1024|20120101|allocated'', ''# end of file'', []] =
     [''apnic|JP|ipv4|103.2.0.0|1024|20120101|allocated'', ''# end of file'', []] \<and>
   (2::64 word) + 1 + 0 + 0 = 3"
proof -
  obtain st' where run: "parseData schema_store strict_flags empty_store commented_file =
      (st', Inr \<lparr>c_ipv4 = 1, c_asn = 0, c_ipv6 = 0, c_all = 3, c_invalid = 2\<rparr>)"
    using commented_run by (cases "parseData schema_store strict_flags empty_store commented_file") simp
  have cs: "list_all header_comment [''# statistics file'']"
    by (simp add: header_comment_def)
  have vl: "\<not> header_comment ''2|apnic|20230101|1|19830613|20230101|+1000''"
    by (simp add: header_comment_def carriage_return_def)
  have ne: "''2|apnic|20230101|1|19830613|20230101|+1000'' \<noteq> []" by simp
  have ah: "after_header ''2|apnic|20230101|1|19830613|20230101|+1000''
     [''apnic|*|asn|*|0|summary'', ''apnic|*|ipv4|*|1|summary'', ''apnic|*|ipv6|*|0|summary'',
      ''apnic|JP|ipv4|103.2.0.0|1024|20120101|allocated'', ''# end of file'', []] =
     [''apnic|JP|ipv4|103.2.0.0|1024|20120101|allocated'', ''# end of file'', []]"
    by (simp add: after_header_def eval_header)
  show ?thesis
    using parseData_counters_after_header [OF run commented_scan cs vl ne] commented_run cs vl ah
    by simp
qed

theorem comment_and_blank_lines_counted:
  "snd (parseData schema_store strict_flags empty_store late_comment_file) =
     Inr \<lparr>c_ipv4 = 0, c_asn = 1, c_ipv6 = 0, c_all = 3, c_invalid = 2\<rparr> \<and>
   NewScanner late_comment_file =
     map Some [''2|ripencc|20230101|1|19830613|20230101|+0100'',
       ''ripencc|*|asn|*|1|summary'', ''ripencc|*|ipv4|*|0|summary'', ''ripencc|*|ipv6|*|0|summary'',
       ''ripencc|NL|asn|1101|1|19930901|allocated'', ''# end of file'', []] \<and>
   length (filter (\<lambda>l. l \<noteq> [] \<and> hd l \<noteq> CHR ''#'')
     [''ripencc|NL|asn|1101|1|19930901|allocated'', ''# end of file'', []]) = 1"
  by (simp add: late_comment_file_def eval_run eval_scanner eval_header eval_record eval_store)






text \<open>
  C8: the code when the store's connection is lost. The first record line of the example
  file ends the run in the nil-pointer panic of \<^verbatim>\<open>driverErr.Number\<close>; the line after
  it is never streamed.
\<close>

theorem lost_connection_aborts_run:
  "parseData lost_connection strict_flags empty_store example_file =
     (\<lparr>Datasets =
         [\<lparr>ds_id = 1, ds_registry = ''apnic'', ds_serial = 20230101, ds_version = ''2'',
           ds_records = 2, ds_startdate = ''19830613'', ds_enddate = ''20230101'',
           ds_UTCoffset = 10\<rparr>],
       Summaries =
         [\<lparr>sm_id = 1, sm_dataset = 1, sm_type = ''ipv4'', sm_count = 2, sm_inserted = ''20230101''\<rparr>,
          \<lparr>sm_id = 2, sm_dataset = 1, sm_type = ''asn'', sm_count = 0, sm_inserted = ''20230101''\<rparr>,
          \<lparr>sm_id = 3, sm_dataset = 1, sm_type = ''ipv6'', sm_count = 0, sm_inserted = ''20230101''\<rparr>],
       Records_ipv4 = [], Records_asn = [], Records_ipv6 = []\<rparr>,
      Inl Panic_nil_dereference)"
  by (simp add: eval_run eval_scanner eval_header eval_record eval_store lost_connection_def)

section \<open>A header that does not match\<close>







section \<open>The logical store under repeated inserts\<close>

lemma records_of_add_record_same:
  "records_of (add_record st ty r) ty = records_of st ty @ [r]"
  by (simp add: records_of_def add_record_def)

lemma records_of_add_record_subset:
  "set (records_of st ty') \<subseteq> set (records_of (add_record st ty r) ty')"
  by (auto simp: records_of_def add_record_def)

lemma add_record_keeps:
  "Datasets (add_record st ty r) = Datasets st" "Summaries (add_record st ty r) = Summaries st"
  by (simp_all add: add_record_def)

lemma exec_has_key: "has_key (snd (store_exec_record st ty did ed vals)) ty (take 6 vals)"
  by (simp add: store_exec_record_def has_key_def records_of_add_record_same rr_key_def)

lemma exec_keeps_keys:
  assumes "has_key st ty' k"
  shows "has_key (snd (store_exec_record st ty did ed vals)) ty' k"
  using assms records_of_add_record_subset [of st ty' ty]
  by (auto simp: store_exec_record_def has_key_def)

lemma exec_duplicate:
  "has_key st ty (take 6 vals) \<Longrightarrow>
   store_exec_record st ty did ed vals = (Some (MySQLError 1062), st)"
  by (simp add: store_exec_record_def has_key_def)

lemma exec_keeps_tables:
  "Datasets (snd (store_exec_record st ty did ed vals)) = Datasets st"
  "Summaries (snd (store_exec_record st ty did ed vals)) = Summaries st"
  by (simp_all add: store_exec_record_def add_record_keeps)

lemma exec_no_other_error: "fst (store_exec_record st ty did ed vals) \<noteq> Some OtherError"
  by (simp add: store_exec_record_def)

lemma process_line_schema:
  assumes "stmt_ok ctx = (\<lambda>k. True)"
  shows "process_line schema_store fl ctx st cnt line =
     (case match_record line of
        None \<Rightarrow> (st, Inr (cnt\<lparr>c_invalid := c_invalid cnt + 1\<rparr>))
      | Some m \<Rightarrow>
          (snd (store_exec_record st (m ! 2) (lastID ctx) (ctx_enddate ctx) (line_values m)),
           Inr (bump (m ! 2) cnt)))"
proof (cases "match_record line")
  case None
  then show ?thesis by (simp add: process_line_def)
next
  case (Some m)
  obtain e st' where ex: "store_exec_record st (m ! 2) (lastID ctx) (ctx_enddate ctx) (line_values m) = (e, st')"
    by (cases "store_exec_record st (m ! 2) (lastID ctx) (ctx_enddate ctx) (line_values m)")
  with exec_no_other_error [of st "m ! 2" "lastID ctx" "ctx_enddate ctx" "line_values m"]
  have "e \<noteq> Some OtherError" by simp
  then show ?thesis
    using Some assms ex
    by (auto simp: process_line_def schema_store_def line_values_def
        split: option.splits store_error.splits)
qed


lemma covered_mono:
  assumes "\<And>ty k. has_key st ty k \<Longrightarrow> has_key st' ty k"
  shows "covered st sc \<Longrightarrow> covered st' sc"
proof (induction sc)
  case Nil
  show ?case by simp
next
  case (Cons x sc)
  then show ?case by (cases x) (auto split: option.splits intro: assms)
qed

text \<open>What a pass over the lines leaves in the logical store.\<close>

lemma stream_records_schema:
  assumes "stmt_ok ctx = (\<lambda>k. True)"
    and "stream_records schema_store fl ctx st cnt sc = (st', r)"
  shows "covered st' sc \<and> (\<forall>ty k. has_key st ty k \<longrightarrow> has_key st' ty k) \<and>
         Datasets st' = Datasets st \<and> Summaries st' = Summaries st"
  using assms(2)
proof (induction sc arbitrary: st cnt)
  case Nil
  then show ?case by simp
next
  case (Cons x sc)
  show ?case
  proof (cases x)
    case None
    with Cons.prems show ?thesis by simp
  next
    case (Some line)
    show ?thesis
    proof (cases "match_record line")
      case None
      with Cons.prems Some
      have "stream_records schema_store fl ctx st (cnt\<lparr>c_invalid := c_invalid cnt + 1, c_all := c_all cnt + 1\<rparr>) sc = (st', r)"
        by (simp add: process_line_schema [OF assms(1)])
      from Cons.IH [OF this] None Some show ?thesis by simp
    next
      case (Some m)
      let ?st1 = "snd (store_exec_record st (m ! 2) (lastID ctx) (ctx_enddate ctx) (line_values m))"
      from Cons.prems \<open>x = Some line\<close> Some
      have "stream_records schema_store fl ctx ?st1 ((bump (m ! 2) cnt)\<lparr>c_all := c_all (bump (m ! 2) cnt) + 1\<rparr>) sc = (st', r)"
        by (simp add: process_line_schema [OF assms(1)])
      from Cons.IH [OF this]
      have ih: "covered st' sc" "\<And>ty k. has_key ?st1 ty k \<Longrightarrow> has_key st' ty k"
        "Datasets st' = Datasets ?st1" "Summaries st' = Summaries ?st1"
        by simp_all
      have "has_key st' (m ! 2) (take 6 (line_values m))"
        by (rule ih(2)) (rule exec_has_key)
      moreover have "\<And>ty k. has_key st ty k \<Longrightarrow> has_key st' ty k"
        by (rule ih(2)) (rule exec_keeps_keys)
      ultimately show ?thesis
        using ih(1,3,4) Some \<open>x = Some line\<close> by (simp add: exec_keeps_tables)
    qed
  qed
qed

text \<open>Over a store that holds every key already, the pass changes nothing and counts the same.\<close>

lemma stream_records_covered:
  assumes "stmt_ok ctx = (\<lambda>k. True)" and "stmt_ok ctx' = (\<lambda>k. True)"
  shows "covered st0 sc \<Longrightarrow>
     stream_records schema_store fl ctx' st0 cnt sc =
       (st0, snd (stream_records schema_store fl ctx st cnt sc))"
proof (induction sc arbitrary: st cnt)
  case Nil
  then show ?case by simp
next
  case (Cons x sc)
  show ?case
  proof (cases x)
    case None
    then show ?thesis by simp
  next
    case (Some line)
    show ?thesis
    proof (cases "match_record line")
      case None
      with Cons.prems Some have cov: "covered st0 sc" by simp
      from Cons.IH [OF cov] None Some show ?thesis
        by (simp add: process_line_schema [OF assms(1)] process_line_schema [OF assms(2)])
    next
      case (Some m)
      with Cons.prems \<open>x = Some line\<close>
      have cov: "covered st0 sc" and key: "has_key st0 (m ! 2) (take 6 (line_values m))"
        by simp_all
      from Cons.IH [OF cov] Some \<open>x = Some line\<close> exec_duplicate [OF key]
      show ?thesis
        by (simp add: process_line_schema [OF assms(1)] process_line_schema [OF assms(2)])
    qed
  qed
qed

lemma schema_store_sel:
  "insert_dataset schema_store = store_insert_dataset"
  "lookup_dataset schema_store = store_lookup_dataset"
  "insert_summary schema_store = store_insert_summary"
  "prepare schema_store = (\<lambda>st ty did ed. True)"
  "exec_record schema_store = store_exec_record"
  by (simp_all add: schema_store_def)

lemma insert_dataset_duplicate:
  "(registry hdr, serial hdr) \<in> set (map ds_key (Datasets st)) \<Longrightarrow>
   store_insert_dataset st hdr = (Inl (MySQLError 1062), st)"
  by (simp add: store_insert_dataset_def)

lemma insert_dataset_key:
  "(registry hdr, serial hdr) \<in> set (map ds_key (Datasets (snd (store_insert_dataset st hdr))))"
  by (simp add: store_insert_dataset_def Let_def ds_key_def)

lemma insert_dataset_summaries:
  "Summaries (snd (store_insert_dataset st hdr)) = Summaries st"
  by (simp add: store_insert_dataset_def Let_def)

lemma lookup_present:
  assumes "(registry hdr, serial hdr) \<in> set (map ds_key (Datasets st))"
  shows "\<exists>row \<in> set (Datasets st). ds_key row = (registry hdr, serial hdr) \<and>
           store_lookup_dataset st (registry hdr) (serial hdr) = Some (ds_id row)"
proof -
  from assms have "\<exists>row. row \<in> set (Datasets st) \<and> ds_key row = (registry hdr, serial hdr)"
    by auto
  then obtain row where "find (\<lambda>r. ds_key r = (registry hdr, serial hdr)) (Datasets st) = Some row"
    by (cases "find (\<lambda>r. ds_key r = (registry hdr, serial hdr)) (Datasets st)")
       (auto simp: find_None_iff)
  moreover from this have "row \<in> set (Datasets st)" "ds_key row = (registry hdr, serial hdr)"
    by (auto simp: find_Some_iff)
  ultimately show ?thesis by (auto simp: store_lookup_dataset_def)
qed

lemma find_append_None: "find P xs = None \<Longrightarrow> find P (xs @ ys) = find P ys"
  by (induction xs) (auto split: if_splits)

lemma lookup_inserted:
  assumes "store_insert_dataset st hdr = (Inr lid, st1)"
  shows "store_lookup_dataset st1 (registry hdr) (serial hdr) = Some lid"
proof -
  from assms have nk: "(registry hdr, serial hdr) \<notin> set (map ds_key (Datasets st))"
    by (auto simp: store_insert_dataset_def split: if_splits)
  then have "find (\<lambda>r. ds_key r = (registry hdr, serial hdr)) (Datasets st) = None"
    by (force simp: find_None_iff image_iff)
  with assms nk show ?thesis
    by (auto simp: store_insert_dataset_def store_lookup_dataset_def Let_def find_append_None ds_key_def)
qed

lemma insert_summary_effect:
  "Datasets (snd (store_insert_summary st did ty n ed)) = Datasets st"
  "(did, ty) \<in> set (map sm_key (Summaries (snd (store_insert_summary st did ty n ed))))"
  "k \<in> set (map sm_key (Summaries st)) \<Longrightarrow>
     k \<in> set (map sm_key (Summaries (snd (store_insert_summary st did ty n ed))))"
  by (auto simp: store_insert_summary_def sm_key_def)

lemma insert_summary_duplicate:
  "(did, ty) \<in> set (map sm_key (Summaries st)) \<Longrightarrow>
   store_insert_summary st did ty n ed = (Some (MySQLError 1062), st)"
  by (simp add: store_insert_summary_def)

lemma save_summaries_effect:
  "Datasets (save_summaries schema_store st lid hdr) = Datasets st"
  "(lid, ''ipv4'') \<in> set (map sm_key (Summaries (save_summaries schema_store st lid hdr)))"
  "(lid, ''asn'') \<in> set (map sm_key (Summaries (save_summaries schema_store st lid hdr)))"
  "(lid, ''ipv6'') \<in> set (map sm_key (Summaries (save_summaries schema_store st lid hdr)))"
  unfolding save_summaries_def schema_store_sel Let_def
  by (intro insert_summary_effect | simp add: insert_summary_effect(1))+

lemma save_summaries_saved:
  assumes "saved st hdr lid"
  shows "save_summaries schema_store st lid hdr = st"
  using assms
  by (simp add: saved_def save_summaries_def schema_store_sel insert_summary_duplicate)

lemma lookup_cong:
  "Datasets st' = Datasets st \<Longrightarrow> store_lookup_dataset st' reg ser = store_lookup_dataset st reg ser"
  by (simp add: store_lookup_dataset_def)

lemma saved_cong:
  "Datasets st' = Datasets st \<Longrightarrow> Summaries st' = Summaries st \<Longrightarrow> saved st hdr lid \<Longrightarrow> saved st' hdr lid"
  by (simp add: saved_def store_lookup_dataset_def)

lemma saveHeaderData_force:
  assumes "f_force fl"
  shows "\<exists>st1 lid. saveHeaderData schema_store fl st hdr = (st1, Inr lid) \<and> saved st1 hdr lid"
proof (cases "(registry hdr, serial hdr) \<in> set (map ds_key (Datasets st))")
  case True
  from lookup_present [OF True] obtain lid where
    row: "store_lookup_dataset st (registry hdr) (serial hdr) = Some lid" by blast
  let ?st1 = "save_summaries schema_store st lid hdr"
  have "saveHeaderData schema_store fl st hdr = (?st1, Inr lid)"
    using assms row by (simp add: saveHeaderData_def schema_store_sel insert_dataset_duplicate [OF True])
  moreover have "saved ?st1 hdr lid"
    using True row save_summaries_effect [where st = st and lid = lid and hdr = hdr]
    by (simp add: saved_def lookup_cong [OF save_summaries_effect(1)])
  ultimately show ?thesis by blast
next
  case False
  obtain r st0 where ins: "store_insert_dataset st hdr = (r, st0)"
    by (cases "store_insert_dataset st hdr")
  with False obtain lid where r: "r = Inr lid"
    by (auto simp: store_insert_dataset_def Let_def)
  let ?st1 = "save_summaries schema_store st0 lid hdr"
  have key: "(registry hdr, serial hdr) \<in> set (map ds_key (Datasets st0))"
    using insert_dataset_key [of hdr st] ins by simp
  have "saveHeaderData schema_store fl st hdr = (?st1, Inr lid)"
    using ins r by (simp add: saveHeaderData_def schema_store_sel)
  moreover have "saved ?st1 hdr lid"
    using key lookup_inserted [OF ins [unfolded r]] save_summaries_effect [where st = st0 and lid = lid and hdr = hdr]
    by (simp add: saved_def lookup_cong [OF save_summaries_effect(1)])
  ultimately show ?thesis by blast
qed

lemma saveHeaderData_saved:
  assumes "saved st hdr lid" "f_force fl"
  shows "saveHeaderData schema_store fl st hdr = (st, Inr lid)"
proof -
  from assms(1) have key: "(registry hdr, serial hdr) \<in> set (map ds_key (Datasets st))"
    and lk: "store_lookup_dataset st (registry hdr) (serial hdr) = Some lid"
    by (simp_all add: saved_def)
  show ?thesis
    using assms(2) lk
    by (simp add: saveHeaderData_def schema_store_sel insert_dataset_duplicate [OF key]
        save_summaries_saved [OF assms(1)])
qed

lemma saveHeaderData_key:
  assumes "saveHeaderData schema_store fl st hdr = (st1, Inr lid)"
  shows "(registry hdr, serial hdr) \<in> set (map ds_key (Datasets st1))"
proof (cases "(registry hdr, serial hdr) \<in> set (map ds_key (Datasets st))")
  case True
  with assms show ?thesis
    by (auto simp: saveHeaderData_def schema_store_sel insert_dataset_duplicate [OF True]
        save_summaries_effect(1) split: if_splits option.splits)
next
  case False
  obtain r st0 where ins: "store_insert_dataset st hdr = (r, st0)"
    by (cases "store_insert_dataset st hdr")
  with False obtain i where r: "r = Inr i"
    by (auto simp: store_insert_dataset_def Let_def)
  have key: "(registry hdr, serial hdr) \<in> set (map ds_key (Datasets st0))"
    using insert_dataset_key [of hdr st] ins by simp
  from assms ins r have "st1 = save_summaries schema_store st0 i hdr"
    by (auto simp: saveHeaderData_def schema_store_sel)
  with key show ?thesis by (simp add: save_summaries_effect(1))
qed

lemma saveHeaderData_duplicate_fatal:
  assumes "(registry hdr, serial hdr) \<in> set (map ds_key (Datasets st))" "\<not> f_force fl"
  shows "saveHeaderData schema_store fl st hdr = (st, Inl (Fatal_dataset_insert (MySQLError 1062)))"
  using assms(2)
  by (simp add: saveHeaderData_def schema_store_sel insert_dataset_duplicate [OF assms(1)])

lemma prepare_all_schema:
  "stmt_ok (prepare_all schema_store st lid ed) = (\<lambda>k. True)"
  "prepare_all schema_store st' lid ed = prepare_all schema_store st lid ed"
  by (simp_all add: prepare_all_def schema_store_sel)

lemma close_all_schema: "close_all (prepare_all schema_store st lid ed) r = r"
  by (simp add: close_all_def prepare_all_def schema_store_sel)

lemma save_and_stream_schema:
  assumes "saveHeaderData schema_store fl st hdr = (st1, Inr lid)"
  shows "save_and_stream schema_store fl st hdr sc =
     stream_records schema_store fl (prepare_all schema_store st1 lid (enddate hdr)) st1 zero_counters sc"
  by (simp add: save_and_stream_def assms Let_def close_all_schema split: prod.splits)

section \<open>Importing the same byte stream again\<close>

lemma save_and_stream_twice:
  assumes "f_force fl" and "save_and_stream schema_store fl st hdr sc = (st2, r)"
  shows "save_and_stream schema_store fl st2 hdr sc = (st2, r)"
proof -
  from saveHeaderData_force [OF assms(1), of st hdr] obtain st1 lid where
    sv: "saveHeaderData schema_store fl st hdr = (st1, Inr lid)" and sd: "saved st1 hdr lid"
    by blast
  let ?ctx = "prepare_all schema_store st1 lid (enddate hdr)"
  have ok: "stmt_ok ?ctx = (\<lambda>k. True)" by (rule prepare_all_schema(1))
  have run1: "stream_records schema_store fl ?ctx st1 zero_counters sc = (st2, r)"
    using assms(2) by (simp add: save_and_stream_schema [OF sv])
  from stream_records_schema [OF ok run1]
  have cov: "covered st2 sc" and ds: "Datasets st2 = Datasets st1"
    and sm: "Summaries st2 = Summaries st1" by simp_all
  have sd2: "saved st2 hdr lid" by (rule saved_cong [OF ds sm sd])
  have sv2: "saveHeaderData schema_store fl st2 hdr = (st2, Inr lid)"
    by (rule saveHeaderData_saved [OF sd2 assms(1)])
  have "save_and_stream schema_store fl st2 hdr sc =
      stream_records schema_store fl (prepare_all schema_store st2 lid (enddate hdr)) st2 zero_counters sc"
    by (rule save_and_stream_schema [OF sv2])
  also have "\<dots> = stream_records schema_store fl ?ctx st2 zero_counters sc"
    by (simp only: prepare_all_schema(2) [of st2 lid "enddate hdr" st1])
  also have "\<dots> = (st2, snd (stream_records schema_store fl ?ctx st1 zero_counters sc))"
    by (rule stream_records_covered [OF ok ok cov])
  finally show ?thesis by (simp add: run1)
qed

text \<open>
  C1. On the logical store of the schema, with force mode on, importing a byte stream
  into the store that an import of the same byte stream has left gives the same store
  again, row for row, and ends the same way with the same counters: the Dataset insert
  finds the duplicate and takes the identifier of the existing row from the lookup, the
  Summary and Record inserts are answered as duplicates and add nothing.
\<close>

theorem reimport_with_force_is_idempotent:
  assumes "f_force fl"
  shows "parseData schema_store fl (fst (parseData schema_store fl st data)) data =
         parseData schema_store fl st data"
proof (cases "parseHeader fl (NewScanner data) zero_header")
  case (Inl f)
  then show ?thesis by (simp add: parseData_def)
next
  case (Inr p)
  obtain hdr sc where p: "p = (hdr, sc)" by (cases p)
  obtain st2 r where run: "save_and_stream schema_store fl st hdr sc = (st2, r)"
    by (cases "save_and_stream schema_store fl st hdr sc")
  from save_and_stream_twice [OF assms run] Inr p run show ?thesis
    by (simp add: parseData_def)
qed

lemma example_run_force:
  "parseData schema_store force_flags empty_store example_file =
     (example_store, Inr \<lparr>c_ipv4 = 1, c_asn = 0, c_ipv6 = 0, c_all = 2, c_invalid = 1\<rparr>)"
  by (simp add: eval_run eval_scanner eval_header eval_record eval_store example_store_def)

theorem reimport_with_force_is_idempotent_witness:
  "f_force force_flags \<and>
   parseData schema_store force_flags empty_store example_file =
     (example_store, Inr \<lparr>c_ipv4 = 1, c_asn = 0, c_ipv6 = 0, c_all = 2, c_invalid = 1\<rparr>) \<and>
   parseData schema_store force_flags example_store example_file =
     (example_store, Inr \<lparr>c_ipv4 = 1, c_asn = 0, c_ipv6 = 0, c_all = 2, c_invalid = 1\<rparr>)"
proof -
  have ff: "f_force force_flags" by (simp add: force_flags_def)
  show ?thesis
    using ff reimport_with_force_is_idempotent [OF ff, of empty_store example_file]
    by (simp add: example_run_force)
qed

lemma parseData_finished:
  assumes "finished (parseData schema_store fl st data)"
  shows "\<exists>hdr sc st1 lid st2 r.
     parseHeader fl (NewScanner data) zero_header = Inr (hdr, sc) \<and>
     saveHeaderData schema_store fl st hdr = (st1, Inr lid) \<and>
     stream_records schema_store fl (prepare_all schema_store st1 lid (enddate hdr)) st1 zero_counters sc = (st2, r) \<and>
     parseData schema_store fl st data = (st2, r)"
proof (cases "parseHeader fl (NewScanner data) zero_header")
  case (Inl f)
  with assms show ?thesis by (simp add: parseData_def finished_def)
next
  case (Inr p)
  obtain hdr sc where p: "p = (hdr, sc)" by (cases p)
  obtain st1 res where sv: "saveHeaderData schema_store fl st hdr = (st1, res)"
    by (cases "saveHeaderData schema_store fl st hdr")
  show ?thesis
  proof (cases res)
    case (Inl f)
    with assms Inr p sv show ?thesis
      by (simp add: parseData_def save_and_stream_def finished_def)
  next
    case (Inr lid)
    obtain st2 r where
      "stream_records schema_store fl (prepare_all schema_store st1 lid (enddate hdr)) st1 zero_counters sc = (st2, r)"
      by (cases "stream_records schema_store fl (prepare_all schema_store st1 lid (enddate hdr)) st1 zero_counters sc")
    with \<open>parseHeader fl (NewScanner data) zero_header = Inr p\<close> p sv Inr show ?thesis
      by (simp add: parseData_def save_and_stream_schema)
  qed
qed

lemma reimport_without_force:
  assumes "\<not> f_force fl" and "finished (parseData schema_store fl st data)"
  shows "parseData schema_store fl (fst (parseData schema_store fl st data)) data =
     (fst (parseData schema_store fl st data), Inl (Fatal_dataset_insert (MySQLError 1062)))"
proof -
  from parseData_finished [OF assms(2)] obtain hdr sc st1 lid st2 r where
    ph: "parseHeader fl (NewScanner data) zero_header = Inr (hdr, sc)" and
    sv: "saveHeaderData schema_store fl st hdr = (st1, Inr lid)" and
    sr: "stream_records schema_store fl (prepare_all schema_store st1 lid (enddate hdr)) st1 zero_counters sc = (st2, r)" and
    run: "parseData schema_store fl st data = (st2, r)"
    by blast
  from stream_records_schema [OF prepare_all_schema(1) sr]
  have ds: "Datasets st2 = Datasets st1" by simp
  have key: "(registry hdr, serial hdr) \<in> set (map ds_key (Datasets st2))"
    unfolding ds by (rule saveHeaderData_key [OF sv])
  have "parseData schema_store fl st2 data = (st2, Inl (Fatal_dataset_insert (MySQLError 1062)))"
    by (simp add: parseData_def ph save_and_stream_def
        saveHeaderData_duplicate_fatal [OF key assms(1)])
  then show ?thesis unfolding run by simp
qed

text \<open>
  C7. On the logical store of the schema, when the Dataset's registry and serial are
  already taken: with force mode, \<open>saveHeaderData\<close> goes on with the identifier of an
  existing row of that registry and serial and adds no Dataset row; without force mode
  it is fatal and the store is left as it was. So a second import of a byte stream,
  without force mode, after a first import that ran to its end, is fatal at the Dataset
  insert.
\<close>

theorem duplicate_dataset_force_or_fatal:
  "((registry hdr, serial hdr) \<in> set (map ds_key (Datasets st)) \<and> f_force fl \<longrightarrow>
      (\<exists>row \<in> set (Datasets st). ds_key row = (registry hdr, serial hdr) \<and>
         saveHeaderData schema_store fl st hdr =
           (save_summaries schema_store st (ds_id row) hdr, Inr (ds_id row)) \<and>
         Datasets (save_summaries schema_store st (ds_id row) hdr) = Datasets st)) \<and>
   ((registry hdr, serial hdr) \<in> set (map ds_key (Datasets st)) \<and> \<not> f_force fl \<longrightarrow>
      saveHeaderData schema_store fl st hdr =
        (st, Inl (Fatal_dataset_insert (MySQLError 1062)))) \<and>
   (\<not> f_force fl \<and> finished (parseData schema_store fl st0 data) \<longrightarrow>
      parseData schema_store fl (fst (parseData schema_store fl st0 data)) data =
        (fst (parseData schema_store fl st0 data), Inl (Fatal_dataset_insert (MySQLError 1062))))"
proof (intro conjI impI)
  assume a: "(registry hdr, serial hdr) \<in> set (map ds_key (Datasets st)) \<and> f_force fl"
  then have key: "(registry hdr, serial hdr) \<in> set (map ds_key (Datasets st))" and f: "f_force fl"
    by simp_all
  from lookup_present [OF key] obtain row where
    row: "row \<in> set (Datasets st)" "ds_key row = (registry hdr, serial hdr)"
      "store_lookup_dataset st (registry hdr) (serial hdr) = Some (ds_id row)"
    by blast
  have "saveHeaderData schema_store fl st hdr =
      (save_summaries schema_store st (ds_id row) hdr, Inr (ds_id row))"
    using f row(3)
    by (simp add: saveHeaderData_def schema_store_sel insert_dataset_duplicate [OF key])
  with row(1,2) save_summaries_effect(1) [of st "ds_id row" hdr]
  show "\<exists>row \<in> set (Datasets st). ds_key row = (registry hdr, serial hdr) \<and>
         saveHeaderData schema_store fl st hdr =
           (save_summaries schema_store st (ds_id row) hdr, Inr (ds_id row)) \<and>
         Datasets (save_summaries schema_store st (ds_id row) hdr) = Datasets st"
    by blast
next
  assume "(registry hdr, serial hdr) \<in> set (map ds_key (Datasets st)) \<and> \<not> f_force fl"
  then show "saveHeaderData schema_store fl st hdr =
      (st, Inl (Fatal_dataset_insert (MySQLError 1062)))"
    using saveHeaderData_duplicate_fatal by blast
next
  assume "\<not> f_force fl \<and> finished (parseData schema_store fl st0 data)"
  then show "parseData schema_store fl (fst (parseData schema_store fl st0 data)) data =
      (fst (parseData schema_store fl st0 data), Inl (Fatal_dataset_insert (MySQLError 1062)))"
    using reimport_without_force by blast
qed


lemma example_run_strict:
  "parseData schema_store strict_flags empty_store example_file =
     (example_store, Inr \<lparr>c_ipv4 = 1, c_asn = 0, c_ipv6 = 0, c_all = 2, c_invalid = 1\<rparr>)"
  by (simp add: example_run example_store_def)

theorem duplicate_dataset_force_or_fatal_witness:
  "(registry example_header, serial example_header) \<in> set (map ds_key (Datasets example_store)) \<and>
   f_force force_flags \<and> \<not> f_force strict_flags \<and>
   finished (parseData schema_store strict_flags empty_store example_file) \<and>
   saveHeaderData schema_store force_flags example_store example_header = (example_store, Inr 1) \<and>
   saveHeaderData schema_store strict_flags example_store example_header =
     (example_store, Inl (Fatal_dataset_insert (MySQLError 1062))) \<and>
   parseData schema_store strict_flags example_store example_file =
     (example_store, Inl (Fatal_dataset_insert (MySQLError 1062)))"
proof -
  have key: "(registry example_header, serial example_header) \<in> set (map ds_key (Datasets example_store))"
    by (simp add: example_header_def example_store_def ds_key_def)
  have fin: "finished (parseData schema_store strict_flags empty_store example_file)"
    by (simp add: example_run_strict finished_def)
  have sm: "save_summaries schema_store example_store 1 example_header = example_store"
    by (simp add: save_summaries_def schema_store_sel store_insert_summary_def sm_key_def
        example_store_def example_header_def)
  have fl: "f_force force_flags" "\<not> f_force strict_flags"
    by (simp_all add: force_flags_def strict_flags_def)
  from duplicate_dataset_force_or_fatal [of example_header example_store force_flags empty_store example_file]
    key fl(1)
  have a: "saveHeaderData schema_store force_flags example_store example_header = (example_store, Inr 1)"
    by (simp add: example_store_def [THEN arg_cong, of Datasets] sm)
  from duplicate_dataset_force_or_fatal [of example_header example_store strict_flags empty_store example_file]
    key fl(2) fin
  have b: "saveHeaderData schema_store strict_flags example_store example_header =
       (example_store, Inl (Fatal_dataset_insert (MySQLError 1062)))"
    and c: "parseData schema_store strict_flags example_store example_file =
       (example_store, Inl (Fatal_dataset_insert (MySQLError 1062)))"
    by (simp_all add: example_run_strict)
  from key fl fin a b c show ?thesis by simp
qed

end
